theory Spec2Isabelle
  imports Main "HOL-Library.Word"
begin

unbundle bit_operations_syntax

section \<open>Airhornbot: clip catalog, selection, play requests, guild queues\<close>

subsection \<open>Data model\<close>

text \<open>
  A shallow embedding of \<^verbatim>\<open>cmd/bot/bot.go\<close>. Go structs are records or datatypes with
  the fields of the source, a call that can panic returns an \<open>outcome\<close>, an \<open>error\<close>
  result is an \<open>error option\<close> (\<open>None\<close> is Go's \<open>nil\<close>), and the packages the bot calls
  but does not contain (\<^verbatim>\<open>math/rand\<close>, \<^verbatim>\<open>io\<close>, \<^verbatim>\<open>encoding/binary\<close>, \<^verbatim>\<open>os\<close>,
  \<^verbatim>\<open>discordgo\<close>) are modelled by their documented contracts, each said where it is used.
  Go's \<^verbatim>\<open>int\<close> is the 64-bit integer of the platforms the bot is built for: a
  \<open>64 word\<close>, read with \<open>sint\<close>, whose sums wrap around as Go's do. The length prefix
  of a frame is an \<^verbatim>\<open>int16\<close> and is a \<open>16 word\<close> read with \<open>sint\<close>.
\<close>

type_synonym byte = "8 word"

type_synonym go_int = "64 word"

datatype 'a outcome = Returns 'a | Panics

text \<open>\<^verbatim>\<open>type Sound struct { Name; Weight; PartDelay; buffer [][]byte }\<close>\<close>

record Sound =
  Name :: string
  Weight :: go_int
  PartDelay :: go_int
  buffer :: "byte list list"

text \<open>
  \<^verbatim>\<open>type SoundCollection struct { Prefix; Commands; Sounds; ChainWith; soundRange }\<close>.
  \<^verbatim>\<open>ChainWith\<close> is a pointer to another collection or nil; the model holds the value of the
  collection pointed to.
\<close>

datatype SoundCollection = SoundCollection
  (Prefix: string)
  (Commands: "string list")
  (Sounds: "Sound list")
  (ChainWith: "SoundCollection option")
  (soundRange: go_int)

text \<open>\<^verbatim>\<open>createSound\<close>: a sound with an empty buffer.\<close>

definition createSound :: "string \<Rightarrow> go_int \<Rightarrow> go_int \<Rightarrow> Sound" where
  "createSound name weight partDelay =
     \<lparr>Name = name, Weight = weight, PartDelay = partDelay, buffer = []\<rparr>"

subsection \<open>Selection: \<^verbatim>\<open>randomRange\<close> and \<^verbatim>\<open>SoundCollection.Random\<close>\<close>

text \<open>
  \<^verbatim>\<open>rand.Intn(n)\<close> of \<^verbatim>\<open>math/rand\<close> panics when \<open>n \<le> 0\<close> and otherwise returns a number
  in \<open>[0, n)\<close> chosen by the generator. The generator is outside the program: its raw
  output is the parameter \<open>raw\<close>, reduced into the range, so that every number of the
  range is the result for some \<open>raw\<close> and no other number ever is, and so that the raw
  outputs below \<open>n\<close> give each number of the range exactly once.
\<close>

definition rand_Intn :: "nat \<Rightarrow> go_int \<Rightarrow> go_int outcome" where
  "rand_Intn raw n =
     (if sint n \<le> 0 then Panics else Returns (word_of_int (int raw mod sint n)))"

text \<open>\<^verbatim>\<open>func randomRange(min, max int) int { ...; return rand.Intn(max-min) + min }\<close>\<close>

definition randomRange :: "nat \<Rightarrow> go_int \<Rightarrow> go_int \<Rightarrow> go_int outcome" where
  "randomRange raw mn mx =
     (case rand_Intn raw (mx - mn) of
        Panics \<Rightarrow> Panics
      | Returns r \<Rightarrow> Returns (r + mn))"

text \<open>
  The loop of \<^verbatim>\<open>Random\<close>: \<open>i\<close> is the running sum, \<open>number\<close> the draw; the first sound
  with \<open>number < i\<close> is returned, and \<open>None\<close> (nil) after the last one. The sum
  \<^verbatim>\<open>i += sound.Weight\<close> is a sum of 64-bit integers and the comparison is signed.
\<close>

fun walk :: "go_int \<Rightarrow> go_int \<Rightarrow> Sound list \<Rightarrow> Sound option" where
  "walk number i [] = None"
| "walk number i (sound # rest) =
     (let i' = i + Weight sound
      in if sint number < sint i' then Some sound else walk number i' rest)"

definition Random :: "nat \<Rightarrow> SoundCollection \<Rightarrow> Sound option outcome" where
  "Random raw s =
     (case randomRange raw 0 (soundRange s) of
        Panics \<Rightarrow> Panics
      | Returns number \<Rightarrow> Returns (walk number 0 (Sounds s)))"

subsection \<open>Loading: \<^verbatim>\<open>Sound.Load\<close> and \<^verbatim>\<open>SoundCollection.Load\<close>\<close>

text \<open>
  An open file is the bytes not yet read and a flag: when \<open>broken\<close>, a read past the
  last byte fails with a device error instead of reaching the end of the file.
\<close>

record File =
  unread :: "byte list"
  broken :: bool

datatype error = EOF | ErrUnexpectedEOF | ErrNotExist | ErrIO | ErrVoice

text \<open>
  \<^verbatim>\<open>io.ReadFull(r, buf)\<close> with \<open>len(buf) = n\<close>: no read at all for \<open>n = 0\<close>; \<open>n\<close> bytes
  when the file has them; otherwise the reader's own error, which at the end of the file
  is \<^verbatim>\<open>io.EOF\<close> when no byte was read and \<^verbatim>\<open>io.ErrUnexpectedEOF\<close> after some.
\<close>

definition ReadFull :: "nat \<Rightarrow> File \<Rightarrow> error + (byte list \<times> File)" where
  "ReadFull n f =
     (if n = 0 then Inr ([], f)
      else if n \<le> length (unread f)
        then Inr (take n (unread f), f\<lparr>unread := drop n (unread f)\<rparr>)
      else if broken f then Inl ErrIO
      else if unread f = [] then Inl EOF
      else Inl ErrUnexpectedEOF)"

text \<open>\<^verbatim>\<open>binary.LittleEndian.Uint16(b) = uint16(b[0]) | uint16(b[1])<<8\<close>\<close>

definition LittleEndian_Uint16 :: "byte list \<Rightarrow> 16 word" where
  "LittleEndian_Uint16 b = ucast (b ! 0) OR push_bit 8 (ucast (b ! 1))"

text \<open>
  \<^verbatim>\<open>binary.Read(file, binary.LittleEndian, &opuslen)\<close> with \<^verbatim>\<open>var opuslen int16\<close>: two
  bytes through \<^verbatim>\<open>io.ReadFull\<close>, then the conversion to \<^verbatim>\<open>int16\<close>, which keeps the bits.
\<close>

definition binary_Read_int16 :: "File \<Rightarrow> error + (16 word \<times> File)" where
  "binary_Read_int16 f =
     (case ReadFull 2 f of
        Inl e \<Rightarrow> Inl e
      | Inr (bs, f') \<Rightarrow> Inr (LittleEndian_Uint16 bs, f'))"

text \<open>
  \<^verbatim>\<open>binary.Read(file, binary.LittleEndian, &InBuf)\<close> with \<^verbatim>\<open>InBuf\<close> a byte slice of length
  \<open>n\<close>: \<^verbatim>\<open>io.ReadFull\<close> into a buffer of \<open>n\<close> bytes.
\<close>

definition binary_Read_bytes :: "nat \<Rightarrow> File \<Rightarrow> error + (byte list \<times> File)" where
  "binary_Read_bytes n f = ReadFull n f"

text \<open>
  The \<^verbatim>\<open>for\<close> loop of \<^verbatim>\<open>Sound.Load\<close>, on the open file and the sound's buffer. It returns
  what \<^verbatim>\<open>Load\<close> returns and the buffer as the loop leaves it.
  \<^verbatim>\<open>make([]byte, opuslen)\<close> panics when \<^verbatim>\<open>opuslen\<close> is negative.
\<close>

function Load_loop :: "File \<Rightarrow> byte list list \<Rightarrow> error option outcome \<times> byte list list" where
  "Load_loop f buf =
     (case binary_Read_int16 f of
        Inl err \<Rightarrow>
          if err = EOF \<or> err = ErrUnexpectedEOF then (Returns None, buf)
          else (Returns (Some err), buf)
      | Inr (opuslen, f1) \<Rightarrow>
          if sint opuslen < 0 then (Panics, buf)
          else
            (case binary_Read_bytes (nat (sint opuslen)) f1 of
               Inl err \<Rightarrow> (Returns (Some err), buf)
             | Inr (InBuf, f2) \<Rightarrow> Load_loop f2 (buf @ [InBuf])))"
  by pat_completeness auto
termination
proof (relation "measure (\<lambda>(f, buf). length (unread f))")
  show "wf (measure (\<lambda>(f, buf). length (unread f)))" by simp
next
  fix f :: File and buf :: "byte list list" and x2 opuslen f1 x2a InBuf f2
  assume "binary_Read_int16 f = Inr x2" "(opuslen, f1) = x2"
    and "binary_Read_bytes (nat (sint opuslen)) f1 = Inr x2a" "(InBuf, f2) = x2a"
  then have "length (unread f1) < length (unread f)"
    and "length (unread f2) \<le> length (unread f1)"
    by (auto simp: binary_Read_int16_def binary_Read_bytes_def ReadFull_def
        split: if_splits)
  then show "((f2, buf @ [InBuf]), (f, buf)) \<in> measure (\<lambda>(f, buf). length (unread f))"
    by simp
qed

declare Load_loop.simps [simp del]

text \<open>
  \<^verbatim>\<open>func (s *Sound) Load(c *SoundCollection) error\<close>. The file system is a map from paths
  to files; \<^verbatim>\<open>os.Open\<close> fails on a path that has none. The result is the returned error
  (or the panic) and the sound after the call.
\<close>

definition dca_path :: "SoundCollection \<Rightarrow> Sound \<Rightarrow> string" where
  "dca_path c s = ''audio/'' @ Prefix c @ ''_'' @ Name s @ ''.dca''"

definition Sound_Load ::
  "(string \<rightharpoonup> File) \<Rightarrow> SoundCollection \<Rightarrow> Sound \<Rightarrow> error option outcome \<times> Sound" where
  "Sound_Load fs c s =
     (case fs (dca_path c s) of
        None \<Rightarrow> (Returns (Some ErrNotExist), s)
      | Some f \<Rightarrow>
          (case Load_loop f (buffer s) of (r, buf) \<Rightarrow> (r, s\<lparr>buffer := buf\<rparr>)))"

text \<open>
  \<^verbatim>\<open>func (sc *SoundCollection) Load()\<close>: for each sound, add its weight to \<^verbatim>\<open>soundRange\<close>
  and load it; the error \<^verbatim>\<open>sound.Load\<close> returns is dropped, a panic is not.
  \<open>Load_sounds\<close> is the loop: the sounds already visited, those to visit, the running
  \<^verbatim>\<open>soundRange\<close>, a 64-bit sum.
\<close>

fun Load_sounds ::
  "(string \<rightharpoonup> File) \<Rightarrow> SoundCollection \<Rightarrow> Sound list \<Rightarrow> Sound list \<Rightarrow> go_int
    \<Rightarrow> (Sound list \<times> go_int) outcome" where
  "Load_sounds fs sc visited [] acc = Returns (visited, acc)"
| "Load_sounds fs sc visited (sound # rest) acc =
     (case Sound_Load fs sc sound of
        (Panics, _) \<Rightarrow> Panics
      | (Returns _, sound') \<Rightarrow>
          Load_sounds fs sc (visited @ [sound']) rest (acc + Weight sound))"

definition SoundCollection_Load ::
  "(string \<rightharpoonup> File) \<Rightarrow> SoundCollection \<Rightarrow> SoundCollection outcome" where
  "SoundCollection_Load fs sc =
     (case Load_sounds fs sc [] (Sounds sc) (soundRange sc) of
        Panics \<Rightarrow> Panics
      | Returns (sounds, acc) \<Rightarrow>
          Returns (SoundCollection (Prefix sc) (Commands sc) sounds (ChainWith sc) acc))"

subsection \<open>Play requests: \<^verbatim>\<open>getCurrentVoiceChannel\<close> and \<^verbatim>\<open>createPlay\<close>\<close>

text \<open>
  \<^verbatim>\<open>type Play struct { GuildID; ChannelID; UserID; Sound *Sound; Next *Play; Forced }\<close>.
  \<^verbatim>\<open>Sound\<close> and \<^verbatim>\<open>Next\<close> are pointers and may be nil.
\<close>

datatype Play = Play
  (GuildID: string)
  (ChannelID: string)
  (UserID: string)
  (Sound: "Sound option")
  (Next: "Play option")
  (Forced: bool)

text \<open>The fields of the \<^verbatim>\<open>discordgo\<close> values that the bot reads.\<close>

datatype User = User (User_ID: string)

datatype VoiceState = VoiceState (VoiceState_UserID: string) (VoiceState_ChannelID: string)

datatype Guild = Guild (Guild_ID: string) (VoiceStates: "VoiceState list")

datatype Channel = Channel (Channel_ID: string)

record VoiceConnection =
  vc_GuildID :: string
  vc_ChannelID :: string

text \<open>
  A Go channel of plays: its capacity and the plays it buffers, oldest first.
  \<^verbatim>\<open>len(ch)\<close> is \<open>length (pending ch)\<close>.
\<close>

record chan =
  cap :: nat
  pending :: "Play list"

text \<open>
  What the program does to the outside, in the order it does it: log lines, calls of the
  voice transport, sleeps and the start of the statistics goroutine. \<open>Sleep d\<close> is a call
  of \<^verbatim>\<open>time.Sleep\<close> with \<^verbatim>\<open>time.Millisecond\<close> times \<open>d\<close>.
\<close>

datatype event =
    Log_Playing Play
  | Log_NoChannel string string
  | Log_Failed error
  | VoiceJoin string string nat
  | VoiceJoinFailed string string
  | ChannelChange nat string
  | Sleep go_int
  | TrackStats Play
  | Speaking nat bool
  | OpusSend nat "byte list"
  | Disconnect nat

text \<open>
  The state of the process and of its surroundings. \<open>queues\<close> is the global map
  \<^verbatim>\<open>queues map[string]chan *Play\<close>. A \<^verbatim>\<open>*discordgo.VoiceConnection\<close> is an address in
  the store \<open>conns\<close>, \<open>allocated\<close> is the next free address, and \<open>VoiceConnections\<close> is
  the map \<^verbatim>\<open>discord.VoiceConnections\<close> in which the library keeps the connection of each
  guild. \<open>State_channels\<close> are the channels \<^verbatim>\<open>discord.State\<close> knows, and \<open>voice_up g c\<close>
  says whether joining channel \<open>c\<close> of guild \<open>g\<close> succeeds. \<open>trace\<close> holds the events so
  far.
\<close>

record world =
  queues :: "string \<rightharpoonup> chan"
  conns :: "nat \<Rightarrow> VoiceConnection"
  allocated :: nat
  VoiceConnections :: "string \<rightharpoonup> nat"
  State_channels :: "string list"
  voice_up :: "string \<Rightarrow> string \<Rightarrow> bool"
  trace :: "event list"

definition emit :: "event list \<Rightarrow> world \<Rightarrow> world" where
  "emit es w = w\<lparr>trace := trace w @ es\<rparr>"

definition MAX_QUEUE_SIZE :: nat where
  "MAX_QUEUE_SIZE = 6"

text \<open>
  \<^verbatim>\<open>discord.State.Channel(id)\<close>: the channel with that id when the state knows it, nil (and
  an error the bot drops) otherwise.
\<close>

definition State_Channel :: "world \<Rightarrow> string \<Rightarrow> Channel option" where
  "State_Channel w cid = (if cid \<in> set (State_channels w) then Some (Channel cid) else None)"

text \<open>
  \<^verbatim>\<open>getCurrentVoiceChannel\<close>: the channel of the first voice state of the guild that
  belongs to the user; nil when there is none.
\<close>

definition getCurrentVoiceChannel :: "world \<Rightarrow> User \<Rightarrow> Guild \<Rightarrow> Channel option" where
  "getCurrentVoiceChannel w user guild =
     (case List.find (\<lambda>vs. VoiceState_UserID vs = User_ID user) (VoiceStates guild) of
        None \<Rightarrow> None
      | Some vs \<Rightarrow> State_Channel w (VoiceState_ChannelID vs))"

text \<open>
  \<^verbatim>\<open>createPlay(user, guild, coll, sound)\<close>. \<open>raw\<close> is what the generator yields for
  \<^verbatim>\<open>coll.Random()\<close> and \<open>raw'\<close> what it yields for \<^verbatim>\<open>coll.ChainWith.Random()\<close>. The result
  is nil (\<open>None\<close>) when the user is in no voice channel.
\<close>

definition createPlay ::
  "nat \<Rightarrow> nat \<Rightarrow> User \<Rightarrow> Guild \<Rightarrow> SoundCollection \<Rightarrow> Sound option \<Rightarrow> world
    \<Rightarrow> Play option outcome \<times> world" where
  "createPlay raw raw' user guild coll sound w =
     (case getCurrentVoiceChannel w user guild of
        None \<Rightarrow> (Returns None, emit [Log_NoChannel (User_ID user) (Guild_ID guild)] w)
      | Some channel \<Rightarrow>
          (case (case sound of
                   Some s \<Rightarrow> Returns (Some s, True)
                 | None \<Rightarrow>
                     (case Random raw coll of
                        Panics \<Rightarrow> Panics
                      | Returns r \<Rightarrow> Returns (r, False))) of
             Panics \<Rightarrow> (Panics, w)
           | Returns (play_Sound, play_Forced) \<Rightarrow>
               (case ChainWith coll of
                  None \<Rightarrow>
                    (Returns (Some (Play (Guild_ID guild) (Channel_ID channel) (User_ID user)
                       play_Sound None play_Forced)), w)
                | Some chain \<Rightarrow>
                    (case Random raw' chain of
                       Panics \<Rightarrow> (Panics, w)
                     | Returns next_Sound \<Rightarrow>
                         (Returns (Some (Play (Guild_ID guild) (Channel_ID channel) (User_ID user)
                            play_Sound
                            (Some (Play (Guild_ID guild) (Channel_ID channel) (User_ID user)
                               next_Sound None play_Forced))
                            play_Forced)), w)))))"

subsection \<open>The playback driver: \<^verbatim>\<open>Sound.Play\<close> and \<^verbatim>\<open>playSound\<close>\<close>

text \<open>
  \<^verbatim>\<open>discord.ChannelVoiceJoin(gID, cID, false, false)\<close>: an error, or a connection to that
  channel of that guild. The library keeps one connection for each guild: a join returns
  the connection the guild has in \<^verbatim>\<open>VoiceConnections\<close>, routed to the channel, and makes
  and stores a new one when the guild has none. A join that fails is taken to leave the
  map as it was.
\<close>

definition ChannelVoiceJoin :: "string \<Rightarrow> string \<Rightarrow> world \<Rightarrow> (error + nat) \<times> world" where
  "ChannelVoiceJoin gID cID w =
     (if voice_up w gID cID
      then (case VoiceConnections w gID of
              Some v \<Rightarrow>
                (Inr v,
                 emit [VoiceJoin gID cID v]
                   (w\<lparr>conns := (conns w)(v := \<lparr>vc_GuildID = gID, vc_ChannelID = cID\<rparr>)\<rparr>))
            | None \<Rightarrow>
                (Inr (allocated w),
                 emit [VoiceJoin gID cID (allocated w)]
                   (w\<lparr>conns := (conns w)(allocated w := \<lparr>vc_GuildID = gID, vc_ChannelID = cID\<rparr>),
                      allocated := Suc (allocated w),
                      VoiceConnections := (VoiceConnections w)(gID \<mapsto> allocated w)\<rparr>)))
      else (Inl ErrVoice, emit [VoiceJoinFailed gID cID] w))"

text \<open>
  \<^verbatim>\<open>vc.Disconnect()\<close>: the connection is closed and the library removes the connection of
  its guild from \<^verbatim>\<open>VoiceConnections\<close>.
\<close>

definition vc_Disconnect :: "nat \<Rightarrow> world \<Rightarrow> world" where
  "vc_Disconnect vc w =
     emit [Disconnect vc]
       (w\<lparr>VoiceConnections := (VoiceConnections w)(vc_GuildID (conns w vc) := None)\<rparr>)"

text \<open>\<^verbatim>\<open>vc.ChangeChannel(cID, false, false)\<close>: the connection is routed to the channel.\<close>

definition ChangeChannel :: "nat \<Rightarrow> string \<Rightarrow> world \<Rightarrow> world" where
  "ChangeChannel vc cID w =
     emit [ChannelChange vc cID]
       (w\<lparr>conns := (conns w)(vc := (conns w vc)\<lparr>vc_ChannelID := cID\<rparr>)\<rparr>)"

text \<open>
  \<^verbatim>\<open>func (s *Sound) Play(vc)\<close>: speaking on, every frame of the buffer in order, speaking
  off (deferred).
\<close>

definition Sound_Play :: "Sound \<Rightarrow> nat \<Rightarrow> world \<Rightarrow> world" where
  "Sound_Play s vc w =
     emit ([Speaking vc True] @ map (OpusSend vc) (buffer s) @ [Speaking vc False]) w"

text \<open>\<^verbatim>\<open>delete(queues, g)\<close>\<close>

definition delete_queue :: "string \<Rightarrow> world \<Rightarrow> world" where
  "delete_queue g w = w\<lparr>queues := (queues w)(g := None)\<rparr>"

text \<open>
  Lines 555 to 584 of \<^verbatim>\<open>playSound(play, vc)\<close>: the log line; the join when \<^verbatim>\<open>vc\<close> is nil,
  whose failure is logged, deletes the guild's queue and ends the call with the error;
  the change of channel with its 125 ms; the statistics goroutine; the 32 ms; the sound.
  A nil \<^verbatim>\<open>play.Sound\<close> panics inside \<^verbatim>\<open>Play\<close>, after speaking was switched on and with the
  deferred switch off. The result is \<open>Inl\<close> of how the call ended, or \<open>Inr\<close> of the
  connection and the sound played.
\<close>

definition start_play ::
  "Play \<Rightarrow> nat option \<Rightarrow> world \<Rightarrow> (error option outcome + nat \<times> Sound) \<times> world" where
  "start_play play vc w =
     (case (case vc of
              None \<Rightarrow> ChannelVoiceJoin (GuildID play) (ChannelID play) (emit [Log_Playing play] w)
            | Some v \<Rightarrow> (Inr v, emit [Log_Playing play] w)) of
        (Inl err, w1) \<Rightarrow>
          (Inl (Returns (Some err)), delete_queue (GuildID play) (emit [Log_Failed err] w1))
      | (Inr v, w1) \<Rightarrow>
          (let w2 = (if vc_ChannelID (conns w1 v) \<noteq> ChannelID play
                     then emit [Sleep 125] (ChangeChannel v (ChannelID play) w1)
                     else w1);
               w3 = emit [TrackStats play, Sleep 32] w2
           in case Sound play of
                None \<Rightarrow> (Inl Panics, emit [Speaking v True, Speaking v False] w3)
              | Some sound \<Rightarrow> (Inr (v, sound), Sound_Play sound v w3)))"

text \<open>
  A run of \<^verbatim>\<open>playSound\<close> that has returned: what it returned (or that it panicked) and
  the state it left.
\<close>

type_synonym run = "error option outcome \<times> world"

text \<open>
  Lines 586 to 589: \<^verbatim>\<open>if play.Next != nil { playSound(play.Next, vc) }\<close>. The error the
  call returns is dropped. \<open>call\<close> is the recursive call.
\<close>

definition chained ::
  "(Play \<Rightarrow> nat option \<Rightarrow> world \<Rightarrow> run option) \<Rightarrow> Play \<Rightarrow> nat \<Rightarrow> world \<Rightarrow> run option" where
  "chained call play vc w =
     (case Next play of
        None \<Rightarrow> Some (Returns None, w)
      | Some next_play \<Rightarrow> call next_play (Some vc) w)"

text \<open>
  Lines 598 to 602: the sleep of \<^verbatim>\<open>play.Sound.PartDelay\<close> ms, \<^verbatim>\<open>delete(queues, ...)\<close>,
  \<^verbatim>\<open>vc.Disconnect()\<close>.
\<close>

definition idle :: "Play \<Rightarrow> Sound \<Rightarrow> nat \<Rightarrow> world \<Rightarrow> world" where
  "idle play sound vc w =
     vc_Disconnect vc (delete_queue (GuildID play) (emit [Sleep (PartDelay sound)] w))"

text \<open>
  Lines 591 to 602: when the guild's queue holds a play, receive it, call \<^verbatim>\<open>playSound\<close>
  on it with the same connection and return nil; otherwise go idle and return nil. The
  length of a missing entry is the length of a nil channel, 0.
\<close>

definition next_or_idle ::
  "(Play \<Rightarrow> nat option \<Rightarrow> world \<Rightarrow> run option) \<Rightarrow> Play \<Rightarrow> Sound \<Rightarrow> nat \<Rightarrow> world
    \<Rightarrow> run option" where
  "next_or_idle call play sound vc w =
     (case queues w (GuildID play) of
        None \<Rightarrow> Some (Returns None, idle play sound vc w)
      | Some ch \<Rightarrow>
          (case pending ch of
             [] \<Rightarrow> Some (Returns None, idle play sound vc w)
           | queued # rest \<Rightarrow>
               (case call queued (Some vc)
                       (w\<lparr>queues := (queues w)(GuildID play \<mapsto> ch\<lparr>pending := rest\<rparr>)\<rparr>) of
                  None \<Rightarrow> None
                | Some (Returns _, w') \<Rightarrow> Some (Returns None, w')
                | Some (Panics, w') \<Rightarrow> Some (Panics, w'))))"

text \<open>
  \<^verbatim>\<open>func playSound(play *Play, vc *discordgo.VoiceConnection) (err error)\<close>. The function
  calls itself for the chained play and for each queued play; the first argument bounds
  the depth of these calls, and \<open>None\<close> says the bound was reached before the call
  returned.
\<close>

primrec playSound :: "nat \<Rightarrow> Play \<Rightarrow> nat option \<Rightarrow> world \<Rightarrow> run option" where
  "playSound 0 = (\<lambda>play vc w. None)"
| "playSound (Suc n) = (\<lambda>play vc w.
     case start_play play vc w of
       (Inl r, w1) \<Rightarrow> Some (r, w1)
     | (Inr (v, sound), w1) \<Rightarrow>
         (case chained (playSound n) play v w1 of
            None \<Rightarrow> None
          | Some (Panics, w2) \<Rightarrow> Some (Panics, w2)
          | Some (Returns _, w2) \<Rightarrow> next_or_idle (playSound n) play sound v w2))"

subsection \<open>The guild queues: \<^verbatim>\<open>enqueuePlay\<close>\<close>

text \<open>How the goroutine that runs \<^verbatim>\<open>enqueuePlay\<close> ends.\<close>

datatype goroutine = Finished | Crashed | Blocked

text \<open>
  Lines 505 to 517 of \<^verbatim>\<open>enqueuePlay\<close>, run without another goroutine in between: what
  happens to the play once it is made. \<open>g\<close> is \<^verbatim>\<open>guild.ID\<close>. With an entry for the guild,
  the play is sent to the channel when the channel holds fewer than \<^verbatim>\<open>MAX_QUEUE_SIZE\<close>
  plays and is dropped otherwise; a send on a full channel blocks, which the test excludes
  for the channels this program makes. Without an entry, a channel of capacity
  \<^verbatim>\<open>MAX_QUEUE_SIZE\<close> is stored and \<^verbatim>\<open>playSound(play, nil)\<close> is called.
\<close>

definition enqueue :: "nat \<Rightarrow> string \<Rightarrow> Play \<Rightarrow> world \<Rightarrow> (goroutine \<times> world) option" where
  "enqueue fuel g play w =
     (case queues w g of
        Some ch \<Rightarrow>
          if length (pending ch) < MAX_QUEUE_SIZE
          then (if length (pending ch) < cap ch
                then Some (Finished, w\<lparr>queues := (queues w)(g \<mapsto> ch\<lparr>pending := pending ch @ [play]\<rparr>)\<rparr>)
                else Some (Blocked, w))
          else Some (Finished, w)
      | None \<Rightarrow>
          (case playSound fuel play None
                  (w\<lparr>queues := (queues w)(g \<mapsto> \<lparr>cap = MAX_QUEUE_SIZE, pending = []\<rparr>)\<rparr>) of
             None \<Rightarrow> None
           | Some (Panics, w') \<Rightarrow> Some (Crashed, w')
           | Some (Returns _, w') \<Rightarrow> Some (Finished, w')))"

text \<open>
  \<^verbatim>\<open>enqueuePlay(user, guild, coll, sound)\<close>: \<^verbatim>\<open>createPlay\<close>, nothing more when it returns
  nil, and the lines above otherwise.
\<close>

definition enqueuePlay ::
  "nat \<Rightarrow> nat \<Rightarrow> nat \<Rightarrow> User \<Rightarrow> Guild \<Rightarrow> SoundCollection \<Rightarrow> Sound option \<Rightarrow> world
    \<Rightarrow> (goroutine \<times> world) option" where
  "enqueuePlay fuel raw raw' user guild coll sound w =
     (case createPlay raw raw' user guild coll sound w of
        (Panics, w1) \<Rightarrow> Some (Crashed, w1)
      | (Returns None, w1) \<Rightarrow> Some (Finished, w1)
      | (Returns (Some play), w1) \<Rightarrow> enqueue fuel (Guild_ID guild) play w1)"

text \<open>
  Plays handed to the queue one after the other, each by a goroutine of its own that
  ends before the next starts.
\<close>

fun enqueue_each :: "nat \<Rightarrow> string \<Rightarrow> Play list \<Rightarrow> world \<Rightarrow> (goroutine list \<times> world) option" where
  "enqueue_each fuel g [] w = Some ([], w)"
| "enqueue_each fuel g (play # plays) w =
     (case enqueue fuel g play w of
        None \<Rightarrow> None
      | Some (r, w') \<Rightarrow>
          (case enqueue_each fuel g plays w' of
             None \<Rightarrow> None
           | Some (rs, w'') \<Rightarrow> Some (r # rs, w'')))"

subsection \<open>Goroutines side by side\<close>

text \<open>
  \<^verbatim>\<open>onMessageCreate\<close> starts \<^verbatim>\<open>enqueuePlay\<close> with \<^verbatim>\<open>go\<close>, so several calls run at once on
  the one map \<^verbatim>\<open>queues\<close>. Here each goroutine is at a point of the source, and a step
  runs one goroutine from its point to the next. A step reads or writes the map at most
  once, except that the length test of a channel and the send or receive that follows it
  are one step. A goroutine has made its play already; \<^verbatim>\<open>guild.ID\<close> is the play's
  \<^verbatim>\<open>GuildID\<close>, as \<^verbatim>\<open>createPlay\<close> sets it.

  A call of \<^verbatim>\<open>playSound\<close> that waits for a call it made is a \<open>caller\<close>: its play, sound
  and connection, and whether it waits at line 588 (\<open>In_chain\<close>) or at line 594
  (\<open>In_queue\<close>).
\<close>

datatype waiting = In_chain | In_queue

type_synonym caller = "Play \<times> Sound \<times> nat \<times> waiting"

text \<open>
  The points: line 507 (\<open>At_exists\<close>), lines 509 to 512 (\<open>At_send\<close>), line 514
  (\<open>At_make\<close>), a call of \<^verbatim>\<open>playSound\<close> about to run lines 555 to 584 (\<open>At_call\<close>; the call
  of line 515 is \<open>At_call play None []\<close>), line 586 (\<open>At_next\<close>), line 591 (\<open>At_queue\<close>),
  line 598 (\<open>At_sleep\<close>), line 599 (\<open>At_delete\<close>), line 600 (\<open>At_disconnect\<close>), the end of
  \<^verbatim>\<open>enqueuePlay\<close> (\<open>Ended\<close>), and a send that blocks (\<open>Stuck\<close>).
\<close>

datatype task =
    At_exists Play
  | At_send Play
  | At_make Play
  | At_call Play "nat option" "caller list"
  | At_next Play Sound nat "caller list"
  | At_queue Play Sound nat "caller list"
  | At_sleep Play Sound nat "caller list"
  | At_delete Play Sound nat "caller list"
  | At_disconnect Play Sound nat "caller list"
  | Ended
  | Stuck

text \<open>
  Where a call that returns leaves its goroutine: the caller of line 588 goes on at line
  591, the caller of line 594 returns as well, and with no caller \<^verbatim>\<open>enqueuePlay\<close> ends.
\<close>

fun return_to :: "caller list \<Rightarrow> task" where
  "return_to [] = Ended"
| "return_to ((play, sound, vc, In_chain) # callers) = At_queue play sound vc callers"
| "return_to ((play, sound, vc, In_queue) # callers) = return_to callers"

text \<open>One step of a goroutine; \<open>Panics\<close> when the step panics.\<close>

fun act :: "task \<Rightarrow> world \<Rightarrow> task outcome \<times> world" where
  "act (At_exists play) w =
     (Returns (if queues w (GuildID play) \<noteq> None then At_send play else At_make play), w)"
| "act (At_send play) w =
     (case queues w (GuildID play) of
        None \<Rightarrow> (Returns Stuck, w)
      | Some ch \<Rightarrow>
          if length (pending ch) < MAX_QUEUE_SIZE
          then (if length (pending ch) < cap ch
                then (Returns Ended,
                  w\<lparr>queues := (queues w)(GuildID play \<mapsto> ch\<lparr>pending := pending ch @ [play]\<rparr>)\<rparr>)
                else (Returns Stuck, w))
          else (Returns Ended, w))"
| "act (At_make play) w =
     (Returns (At_call play None []),
      w\<lparr>queues := (queues w)(GuildID play \<mapsto> \<lparr>cap = MAX_QUEUE_SIZE, pending = []\<rparr>)\<rparr>)"
| "act (At_call play vc callers) w =
     (case start_play play vc w of
        (Inl Panics, w') \<Rightarrow> (Panics, w')
      | (Inl (Returns e), w') \<Rightarrow> (Returns (return_to callers), w')
      | (Inr (v, sound), w') \<Rightarrow> (Returns (At_next play sound v callers), w'))"
| "act (At_next play sound vc callers) w =
     (case Next play of
        None \<Rightarrow> (Returns (At_queue play sound vc callers), w)
      | Some next_play \<Rightarrow>
          (Returns (At_call next_play (Some vc) ((play, sound, vc, In_chain) # callers)), w))"
| "act (At_queue play sound vc callers) w =
     (case queues w (GuildID play) of
        None \<Rightarrow> (Returns (At_sleep play sound vc callers), w)
      | Some ch \<Rightarrow>
          (case pending ch of
             [] \<Rightarrow> (Returns (At_sleep play sound vc callers), w)
           | queued # rest \<Rightarrow>
               (Returns (At_call queued (Some vc) ((play, sound, vc, In_queue) # callers)),
                w\<lparr>queues := (queues w)(GuildID play \<mapsto> ch\<lparr>pending := rest\<rparr>)\<rparr>)))"
| "act (At_sleep play sound vc callers) w =
     (Returns (At_delete play sound vc callers), emit [Sleep (PartDelay sound)] w)"
| "act (At_delete play sound vc callers) w =
     (Returns (At_disconnect play sound vc callers), delete_queue (GuildID play) w)"
| "act (At_disconnect play sound vc callers) w =
     (Returns (return_to callers), vc_Disconnect vc w)"
| "act Ended w = (Returns Ended, w)"
| "act Stuck w = (Returns Stuck, w)"

text \<open>
  The process: the shared state, the goroutines, and whether a panic has ended it.
  \<open>step i\<close> lets goroutine \<open>i\<close> take its next step, \<open>exec\<close> follows a schedule.
\<close>

record system =
  shared :: world
  tasks :: "task list"
  crashed :: bool

definition step :: "nat \<Rightarrow> system \<Rightarrow> system" where
  "step i sys =
     (if crashed sys \<or> length (tasks sys) \<le> i then sys
      else (case act (tasks sys ! i) (shared sys) of
              (Panics, w') \<Rightarrow> sys\<lparr>shared := w', crashed := True\<rparr>
            | (Returns t', w') \<Rightarrow> sys\<lparr>shared := w', tasks := (tasks sys)[i := t']\<rparr>))"

fun exec :: "nat list \<Rightarrow> system \<Rightarrow> system" where
  "exec [] sys = sys"
| "exec (i # schedule) sys = exec schedule (step i sys)"

section \<open>Invariants and measures\<close>

subsection \<open>Of the playback driver\<close>

text \<open>
  \<open>queues_shrink w w'\<close>: every queue of \<open>w'\<close> is a queue of \<open>w\<close> with plays taken from
  its front. \<open>queue_ok g w\<close>: the plays waiting in the queue of guild \<open>g\<close> are plays for
  that guild, as \<^verbatim>\<open>enqueuePlay\<close> puts them.
\<close>

definition queues_shrink :: "world \<Rightarrow> world \<Rightarrow> bool" where
  "queues_shrink w w' \<longleftrightarrow>
     (\<forall>g ch'. queues w' g = Some ch' \<longrightarrow>
        (\<exists>ch k. queues w g = Some ch \<and> cap ch' = cap ch \<and> pending ch' = drop k (pending ch)))"

definition queue_ok :: "string \<Rightarrow> world \<Rightarrow> bool" where
  "queue_ok g w \<longleftrightarrow> (\<forall>ch. queues w g = Some ch \<longrightarrow> (\<forall>q \<in> set (pending ch). GuildID q = g))"

text \<open>
  \<open>chain_length\<close> counts a play and the plays chained to it, \<open>in_guild g\<close> says all of
  these are plays for guild \<open>g\<close>, \<open>queue_in_guild g w\<close> says so of every play waiting in
  the queue of \<open>g\<close>, and \<open>queued_length g w\<close> counts the plays waiting there with their
  chains.
\<close>

fun chain_length :: "Play \<Rightarrow> nat" where
  "chain_length (Play g c u s nx f) =
     Suc (case nx of None \<Rightarrow> 0 | Some p \<Rightarrow> chain_length p)"

fun in_guild :: "string \<Rightarrow> Play \<Rightarrow> bool" where
  "in_guild g (Play g' c u s nx f) \<longleftrightarrow>
     g' = g \<and> (case nx of None \<Rightarrow> True | Some p \<Rightarrow> in_guild g p)"

definition queue_in_guild :: "string \<Rightarrow> world \<Rightarrow> bool" where
  "queue_in_guild g w \<longleftrightarrow>
     (\<forall>ch. queues w g = Some ch \<longrightarrow> (\<forall>q \<in> set (pending ch). in_guild g q))"

definition queued_length :: "string \<Rightarrow> world \<Rightarrow> nat" where
  "queued_length g w =
     (case queues w g of None \<Rightarrow> 0 | Some ch \<Rightarrow> sum_list (map chain_length (pending ch)))"

text \<open>
  \<open>is_join\<close> holds of the events of \<^verbatim>\<open>ChannelVoiceJoin\<close>; \<open>on_conn v\<close> holds of every event
  that is not a call on a connection other than \<open>v\<close>; \<open>same_session v w w'\<close> says that the
  events from \<open>w\<close> to \<open>w'\<close> join no voice channel and use no connection but \<open>v\<close>.
\<close>

fun is_join :: "event \<Rightarrow> bool" where
  "is_join (VoiceJoin g c v) = True"
| "is_join (VoiceJoinFailed g c) = True"
| "is_join e = False"

fun on_conn :: "nat \<Rightarrow> event \<Rightarrow> bool" where
  "on_conn v (VoiceJoin g c v') = (v' = v)"
| "on_conn v (ChannelChange v' c) = (v' = v)"
| "on_conn v (Speaking v' b) = (v' = v)"
| "on_conn v (OpusSend v' fr) = (v' = v)"
| "on_conn v (Disconnect v') = (v' = v)"
| "on_conn v e = True"

definition same_session :: "nat \<Rightarrow> world \<Rightarrow> world \<Rightarrow> bool" where
  "same_session v w w' \<longleftrightarrow>
     (\<exists>es. trace w' = trace w @ es \<and> (\<forall>e \<in> set es. \<not> is_join e \<and> on_conn v e))"

text \<open>
  \<open>loaded sc\<close>: the total weight of the collection is positive and at most the sum of the
  weights as the running sum of \<^verbatim>\<open>Random\<close> adds them, which is how \<^verbatim>\<open>Load\<close> leaves a
  collection that has clips.
\<close>

definition loaded :: "SoundCollection \<Rightarrow> bool" where
  "loaded sc \<longleftrightarrow>
     0 < sint (soundRange sc) \<and>
     sint (soundRange sc) \<le> sint (sum_list (map Weight (Sounds sc)))"

text \<open>The connection that a join of guild \<open>g\<close> returns in \<open>w\<close> when it succeeds.\<close>

definition join_address :: "world \<Rightarrow> string \<Rightarrow> nat" where
  "join_address w g = (case VoiceConnections w g of Some v \<Rightarrow> v | None \<Rightarrow> allocated w)"

subsection \<open>Of the goroutines\<close>

text \<open>
  A goroutine is in a run for guild \<open>g\<close> from the call of line 515 until that call has
  returned; the plays of one run are plays of one guild. It still \<open>owns\<close> the run until it
  has deleted the guild's entry for the last time.
\<close>

fun in_flight :: "string \<Rightarrow> task \<Rightarrow> bool" where
  "in_flight g (At_call play vc callers) = (GuildID play = g)"
| "in_flight g (At_next play sound vc callers) = (GuildID play = g)"
| "in_flight g (At_queue play sound vc callers) = (GuildID play = g)"
| "in_flight g (At_sleep play sound vc callers) = (GuildID play = g)"
| "in_flight g (At_delete play sound vc callers) = (GuildID play = g)"
| "in_flight g (At_disconnect play sound vc callers) = (GuildID play = g)"
| "in_flight g t = False"

definition runs_in_flight :: "string \<Rightarrow> system \<Rightarrow> nat" where
  "runs_in_flight g sys = length (filter (in_flight g) (tasks sys))"

fun owns :: "string \<Rightarrow> task \<Rightarrow> bool" where
  "owns g (At_disconnect play sound vc callers) = (GuildID play = g \<and> return_to callers \<noteq> Ended)"
| "owns g t = in_flight g t"

text \<open>
  \<open>task_ok\<close>: the plays a goroutine holds are plays of one guild. \<open>coherent\<close>: this holds
  of every goroutine, and every queue holds plays of its guild. \<open>entries_owned\<close>: every
  guild with an entry in the map has a goroutine that owns a run for it.
\<close>

definition callers_in :: "string \<Rightarrow> caller list \<Rightarrow> bool" where
  "callers_in g callers \<longleftrightarrow> (\<forall>c \<in> set callers. in_guild g (fst c))"

fun task_ok :: "task \<Rightarrow> bool" where
  "task_ok (At_exists play) = in_guild (GuildID play) play"
| "task_ok (At_send play) = in_guild (GuildID play) play"
| "task_ok (At_make play) = in_guild (GuildID play) play"
| "task_ok (At_call play vc callers) =
     (in_guild (GuildID play) play \<and> callers_in (GuildID play) callers)"
| "task_ok (At_next play sound vc callers) =
     (in_guild (GuildID play) play \<and> callers_in (GuildID play) callers)"
| "task_ok (At_queue play sound vc callers) =
     (in_guild (GuildID play) play \<and> callers_in (GuildID play) callers)"
| "task_ok (At_sleep play sound vc callers) =
     (in_guild (GuildID play) play \<and> callers_in (GuildID play) callers)"
| "task_ok (At_delete play sound vc callers) =
     (in_guild (GuildID play) play \<and> callers_in (GuildID play) callers)"
| "task_ok (At_disconnect play sound vc callers) =
     (in_guild (GuildID play) play \<and> callers_in (GuildID play) callers)"
| "task_ok Ended = True"
| "task_ok Stuck = True"

definition coherent :: "system \<Rightarrow> bool" where
  "coherent sys \<longleftrightarrow>
     (\<forall>t \<in> set (tasks sys). task_ok t) \<and> (\<forall>g. queue_in_guild g (shared sys))"

definition entries_owned :: "system \<Rightarrow> bool" where
  "entries_owned sys \<longleftrightarrow>
     (\<forall>g. queues (shared sys) g \<noteq> None \<longrightarrow> (\<exists>t \<in> set (tasks sys). owns g t))"

section \<open>The specification's notions\<close>

text \<open>
  The specification describes the selection as returning the first clip whose cumulative
  weight strictly exceeds the draw, and the total weight as the sum of the weights. Its
  weights are positive integers and its sums are sums of numbers: \<open>total_weight ss\<close> is
  the sum of the weights of the clips, \<open>cumulative_weight ss k\<close> the sum of the weights
  of the clips up to and including position \<open>k\<close>, and \<open>first_exceeding\<close> searches the
  positions in order.
\<close>

definition total_weight :: "Sound list \<Rightarrow> int" where
  "total_weight ss = sum_list (map (\<lambda>s. sint (Weight s)) ss)"



text \<open>
  The specification describes a clip resource as a sequence of frames, each a 16-bit
  little-endian length followed by that many bytes. \<open>le16\<close> writes a length below
  \<open>65536\<close> that way.
\<close>

definition le16 :: "nat \<Rightarrow> byte list" where
  "le16 n = [of_nat (n mod 256), of_nat (n div 256)]"

definition frame_bytes :: "byte list \<Rightarrow> byte list" where
  "frame_bytes fr = le16 (length fr) @ fr"

definition resource_bytes :: "byte list list \<Rightarrow> byte list" where
  "resource_bytes frs = concat (map frame_bytes frs)"

section \<open>Example values\<close>

text \<open>Values for the examples below.\<close>

definition airhorn_default :: Sound where
  "airhorn_default = createSound ''default'' 1000 250"

definition play_one :: Play where
  "play_one = Play ''g1'' ''c1'' ''u1'' (Some airhorn_default) None False"

definition play_two :: Play where
  "play_two = Play ''g1'' ''c1'' ''u2'' (Some airhorn_default) None True"

definition world0 :: world where
  "world0 = \<lparr>queues = Map.empty, conns = (\<lambda>v. \<lparr>vc_GuildID = [], vc_ChannelID = []\<rparr>),
     allocated = 0, VoiceConnections = Map.empty, State_channels = [''c1'', ''c2''],
     voice_up = (\<lambda>g c. True), trace = []\<rparr>"

definition voice_down :: world where
  "voice_down = world0\<lparr>queues := [''g1'' \<mapsto> \<lparr>cap = MAX_QUEUE_SIZE, pending = [play_two]\<rparr>],
     voice_up := (\<lambda>g c. False)\<rparr>"

definition run_active :: world where
  "run_active = world0\<lparr>queues := [''g1'' \<mapsto> \<lparr>cap = 6, pending = []\<rparr>]\<rparr>"

definition seven_plays :: "Play list" where
  "seven_plays = map (\<lambda>u. Play ''g1'' ''c1'' u (Some airhorn_default) None False)
     [''u1'', ''u2'', ''u3'', ''u4'', ''u5'', ''u6'', ''u7'']"

definition queued_one :: world where
  "queued_one = world0\<lparr>queues := [''g1'' \<mapsto> \<lparr>cap = 6, pending = [play_two]\<rparr>]\<rparr>"

definition first_played :: world where
  "first_played = queued_one\<lparr>
     conns := (conns world0)(0 := \<lparr>vc_GuildID = ''g1'', vc_ChannelID = ''c1''\<rparr>),
     allocated := Suc 0,
     VoiceConnections := [''g1'' \<mapsto> 0],
     trace := [Log_Playing play_one, VoiceJoin ''g1'' ''c1'' 0, TrackStats play_one, Sleep 32,
       Speaking 0 True, Speaking 0 False]\<rparr>"

definition both_played :: world where
  "both_played = first_played\<lparr>
     queues := Map.empty,
     VoiceConnections := Map.empty,
     trace := [Log_Playing play_one, VoiceJoin ''g1'' ''c1'' 0, TrackStats play_one, Sleep 32,
       Speaking 0 True, Speaking 0 False,
       Log_Playing play_two, TrackStats play_two, Sleep 32, Speaking 0 True, Speaking 0 False,
       Sleep 250, Disconnect 0]\<rparr>"

definition clip_horn :: Sound where
  "clip_horn = \<lparr>Name = ''default'', Weight = 1000, PartDelay = 250, buffer = [[0x02]]\<rparr>"

definition clip_one :: Sound where
  "clip_one = \<lparr>Name = ''one'', Weight = 1, PartDelay = 250, buffer = [[0x01]]\<rparr>"

definition airhorn_loaded :: SoundCollection where
  "airhorn_loaded = SoundCollection ''airhorn'' [''!airhorn''] [clip_horn] None 1000"

definition khaled_loaded :: SoundCollection where
  "khaled_loaded =
     SoundCollection ''another'' [''!anotha'', ''!anothaone''] [clip_one] (Some airhorn_loaded) 1"

definition guild_one :: Guild where
  "guild_one = Guild ''g1'' [VoiceState ''u1'' ''c1'']"

definition follow_up :: Play where
  "follow_up = Play ''g1'' ''c1'' ''u1'' (Some clip_horn) None False"

definition chained_play :: Play where
  "chained_play = Play ''g1'' ''c1'' ''u1'' (Some clip_one) (Some follow_up) False"

definition one_played :: world where
  "one_played = queued_one\<lparr>
     conns := (conns world0)(0 := \<lparr>vc_GuildID = ''g1'', vc_ChannelID = ''c1''\<rparr>),
     allocated := Suc 0,
     VoiceConnections := [''g1'' \<mapsto> 0],
     trace := [Log_Playing chained_play, VoiceJoin ''g1'' ''c1'' 0, TrackStats chained_play,
       Sleep 32, Speaking 0 True, OpusSend 0 [0x01], Speaking 0 False]\<rparr>"

definition clip_short :: Sound where
  "clip_short = \<lparr>Name = ''short'', Weight = 1, PartDelay = 0, buffer = [[0x03]]\<rparr>"

definition short_follow :: Play where
  "short_follow = Play ''g1'' ''c1'' ''u1'' (Some clip_short) None False"

definition chained_short :: Play where
  "chained_short = Play ''g1'' ''c1'' ''u1'' (Some clip_one) (Some short_follow) False"

definition two_submitters :: system where
  "two_submitters =
     \<lparr>shared = world0, tasks = [At_exists play_one, At_exists play_two], crashed = False\<rparr>"

definition scenario_sounds :: "Sound list" where
  "scenario_sounds = [createSound ''a'' 1000 250, createSound ''b'' 10 250]"

definition scenario_literal :: SoundCollection where
  "scenario_literal = SoundCollection ''s'' [''!s''] scenario_sounds None 0"

definition scenario_loaded :: SoundCollection where
  "scenario_loaded = SoundCollection ''s'' [''!s''] scenario_sounds None 1010"




definition wide :: SoundCollection where
  "wide = SoundCollection ''x'' [''!x'']
     [createSound ''a'' 0x7FFFFFFFFFFFFFFE 250, createSound ''b'' 0x7FFFFFFFFFFFFFFE 250]
     None 0x7FFFFFFFFFFFFFFF"

definition no_clips :: SoundCollection where
  "no_clips = SoundCollection ''n'' [''!n''] [] None 0"

definition zero_weights :: SoundCollection where
  "zero_weights = SoundCollection ''w'' [''!w''] [createSound ''a'' 0 250] None 0"

definition airhorn_literal :: SoundCollection where
  "airhorn_literal =
     SoundCollection ''airhorn'' [''!airhorn''] [createSound ''default'' 1000 250] None 0"

definition one_file :: "byte list \<Rightarrow> string \<rightharpoonup> File" where
  "one_file bs = [''audio/airhorn_default.dca'' \<mapsto> \<lparr>unread = bs, broken = False\<rparr>]"

section \<open>Selection\<close>


lemma sint_go_int_bounds: "- (2 ^ 63) \<le> sint (a :: go_int)" "sint (a :: go_int) < 2 ^ 63"
  using sint_ge [of a] sint_lt [of a] by simp_all


lemma sint_word_of_int_small:
  assumes "0 \<le> k" and "k < 2 ^ 63"
  shows "sint (word_of_int k :: go_int) = k"
proof -
  have "sint (word_of_int k :: go_int) = signed_take_bit 63 k"
    by (simp add: sint_sbintrunc')
  also have "\<dots> = k"
    using assms by (intro signed_take_bit_int_eq_self) simp_all
  finally show ?thesis .
qed

lemma total_weight_Cons [simp]: "total_weight (s # ss) = sint (Weight s) + total_weight ss"
  by (simp add: total_weight_def)

lemma total_weight_Nil [simp]: "total_weight [] = 0"
  by (simp add: total_weight_def)







lemma walk_Some_mem: "walk d i ss = Some s \<Longrightarrow> s \<in> set ss"
  by (induction ss arbitrary: i) (auto simp: Let_def split: if_splits)

lemma walk_below_sum:
  "sint d < sint (i + sum_list (map Weight ss)) \<Longrightarrow> \<not> sint d < sint i \<Longrightarrow>
   \<exists>s. walk d i ss = Some s"
  by (induction ss arbitrary: i) (auto simp: Let_def add.assoc)


lemma rand_Intn_sint:
  "0 < sint n \<Longrightarrow> \<exists>r. rand_Intn raw n = Returns r \<and> sint r = int raw mod sint n"
proof -
  assume n: "0 < sint n"
  have "int raw mod sint n < sint n" "0 \<le> int raw mod sint n"
    using n by simp_all
  moreover have "sint n < 2 ^ 63"
    by (rule sint_go_int_bounds)
  ultimately have "sint (word_of_int (int raw mod sint n) :: go_int) = int raw mod sint n"
    by (intro sint_word_of_int_small) simp_all
  with n show ?thesis
    by (simp add: rand_Intn_def)
qed



lemma randomRange_zero: "randomRange raw 0 n = rand_Intn raw n"
  by (simp add: randomRange_def split: outcome.splits)


lemma Random_loaded:
  assumes "loaded sc"
  shows "\<exists>sound. Random raw sc = Returns (Some sound) \<and> sound \<in> set (Sounds sc)"
proof -
  have pos: "0 < sint (soundRange sc)"
    and le: "sint (soundRange sc) \<le> sint (sum_list (map Weight (Sounds sc)))"
    using assms by (simp_all add: loaded_def)
  from rand_Intn_sint [OF pos, of raw]
  obtain number where n: "rand_Intn raw (soundRange sc) = Returns number"
    and sn: "sint number = int raw mod sint (soundRange sc)"
    by blast
  have "int raw mod sint (soundRange sc) < sint (soundRange sc)"
    and nn: "0 \<le> int raw mod sint (soundRange sc)"
    using pos by simp_all
  with le sn have "sint number < sint (0 + sum_list (map Weight (Sounds sc)))"
    and "\<not> sint number < sint (0 :: go_int)"
    by simp_all
  from walk_below_sum [OF this]
  obtain sound where w: "walk number 0 (Sounds sc) = Some sound" by auto
  have "Random raw sc = Returns (Some sound)"
    using n w by (simp add: Random_def randomRange_zero)
  with walk_Some_mem [OF w] show ?thesis by blast
qed

lemma Load_sounds_weights:
  "Load_sounds fs sc visited todo acc = Returns (sounds, acc') \<Longrightarrow>
   acc' = acc + sum_list (map Weight todo) \<and>
   map Weight sounds = map Weight visited @ map Weight todo"
proof (induction todo arbitrary: visited acc)
  case Nil
  then show ?case by simp
next
  case (Cons s todo)
  obtain r s' where sl: "Sound_Load fs sc s = (r, s')" by (cases "Sound_Load fs sc s")
  then have w: "Weight s' = Weight s"
    by (auto simp: Sound_Load_def split: option.splits prod.splits)
  from Cons.prems sl obtain e where r: "r = Returns e"
    by (cases r) auto
  from Cons.prems sl r
  have "Load_sounds fs sc (visited @ [s']) todo (acc + Weight s) = Returns (sounds, acc')"
    by simp
  from Cons.IH [OF this] w show ?case by simp
qed

lemma SoundCollection_Load_soundRange:
  "SoundCollection_Load fs sc = Returns sc' \<Longrightarrow>
   soundRange sc' = soundRange sc + sum_list (map Weight (Sounds sc')) \<and>
   map Weight (Sounds sc') = map Weight (Sounds sc)"
  by (auto simp: SoundCollection_Load_def split: outcome.splits dest!: Load_sounds_weights)

section \<open>Loading\<close>

lemma LittleEndian_Uint16_le16: "LittleEndian_Uint16 (le16 n) = of_nat n"
proof -
  have m: "n mod 256 = take_bit 8 n" and d: "n div 256 = drop_bit 8 n"
    by (simp_all add: take_bit_eq_mod drop_bit_eq_div)
  show ?thesis
    unfolding LittleEndian_Uint16_def le16_def m d
    by (rule bit_word_eqI) (auto simp add: bit_simps)
qed

lemma sint_of_nat_16: "n < 32768 \<Longrightarrow> sint (of_nat n :: 16 word) = int n"
proof -
  assume n: "n < 32768"
  have "sint (word_of_int (int n) :: 16 word) = signed_take_bit (LENGTH(16) - 1) (int n)"
    by (rule sint_sbintrunc')
  also have "\<dots> = int n"
    using n by (intro signed_take_bit_int_eq_self) simp_all
  finally show ?thesis by simp
qed

lemma sint_of_nat_16_neg:
  assumes "32768 \<le> n" "n < 65536"
  shows "sint (of_nat n :: 16 word) < 0"
proof -
  have "sint (word_of_int (int n) :: 16 word) = signed_take_bit (LENGTH(16) - 1) (int n)"
    by (rule sint_sbintrunc')
  also have "\<dots> = (int n + 32768) mod 65536 - 32768"
    by (simp add: signed_take_bit_eq_take_bit_shift take_bit_eq_mod)
  also have "(int n + 32768) mod 65536 = (int n + 32768 - 65536) mod 65536"
    by (simp only: minus_mod_self2)
  also have "int n + 32768 - 65536 = int n - 32768"
    by simp
  also have "(int n - 32768) mod 65536 = int n - 32768"
    using assms by (intro mod_pos_pos_trivial) simp_all
  finally show ?thesis using assms by simp
qed

lemma binary_Read_int16_le16:
  "binary_Read_int16 \<lparr>unread = le16 n @ rest, broken = b\<rparr> =
     Inr (of_nat n, \<lparr>unread = rest, broken = b\<rparr>)"
  by (simp add: binary_Read_int16_def ReadFull_def LittleEndian_Uint16_le16 [symmetric])
     (simp add: le16_def)

lemma binary_Read_bytes_exact:
  "binary_Read_bytes (length fr) \<lparr>unread = fr @ rest, broken = b\<rparr> =
     Inr (fr, \<lparr>unread = rest, broken = b\<rparr>)"
  by (simp add: binary_Read_bytes_def ReadFull_def)

lemma Load_loop_frame:
  "length fr < 32768 \<Longrightarrow>
   Load_loop \<lparr>unread = frame_bytes fr @ rest, broken = b\<rparr> buf =
   Load_loop \<lparr>unread = rest, broken = b\<rparr> (buf @ [fr])"
  by (subst Load_loop.simps)
     (simp add: frame_bytes_def binary_Read_int16_le16 sint_of_nat_16 binary_Read_bytes_exact)

lemma Load_loop_frames:
  "\<forall>fr \<in> set frs. length fr < 32768 \<Longrightarrow>
   Load_loop \<lparr>unread = resource_bytes frs @ rest, broken = b\<rparr> buf =
   Load_loop \<lparr>unread = rest, broken = b\<rparr> (buf @ frs)"
proof (induction frs arbitrary: buf)
  case Nil
  then show ?case by (simp add: resource_bytes_def)
next
  case (Cons fr frs)
  have "resource_bytes (fr # frs) @ rest = frame_bytes fr @ (resource_bytes frs @ rest)"
    by (simp add: resource_bytes_def)
  then show ?case
    using Cons by (simp add: Load_loop_frame)
qed

lemma Load_loop_end: "Load_loop \<lparr>unread = [], broken = False\<rparr> buf = (Returns None, buf)"
  by (subst Load_loop.simps) (simp add: binary_Read_int16_def ReadFull_def)

lemma Load_loop_one_byte:
  "Load_loop \<lparr>unread = [x], broken = False\<rparr> buf = (Returns None, buf)"
  by (subst Load_loop.simps) (simp add: binary_Read_int16_def ReadFull_def)

lemma Load_loop_fault:
  "length bs < 2 \<Longrightarrow> Load_loop \<lparr>unread = bs, broken = True\<rparr> buf = (Returns (Some ErrIO), buf)"
  by (subst Load_loop.simps) (simp add: binary_Read_int16_def ReadFull_def)

lemma Load_loop_short_payload:
  "n < 32768 \<Longrightarrow> length payload < n \<Longrightarrow>
   Load_loop \<lparr>unread = le16 n @ payload, broken = br\<rparr> buf =
     (Returns (Some (if br then ErrIO else if payload = [] then EOF else ErrUnexpectedEOF)), buf)"
  by (subst Load_loop.simps)
     (simp add: binary_Read_int16_le16 sint_of_nat_16 binary_Read_bytes_def ReadFull_def)

lemma Load_loop_negative:
  "32768 \<le> n \<Longrightarrow> n < 65536 \<Longrightarrow>
   Load_loop \<lparr>unread = le16 n @ rest, broken = b\<rparr> buf = (Panics, buf)"
  by (subst Load_loop.simps) (simp add: binary_Read_int16_le16 sint_of_nat_16_neg)

lemma dca_path_default:
  "dca_path airhorn_literal (createSound ''default'' 1000 250) = ''audio/airhorn_default.dca''"
  by (simp add: dca_path_def airhorn_literal_def createSound_def)

section \<open>The playback driver\<close>

lemma queues_emit [simp]: "queues (emit es w) = queues w"
  by (simp add: emit_def)

lemma trace_emit [simp]: "trace (emit es w) = trace w @ es"
  by (simp add: emit_def)

lemma queues_delete_queue [simp]: "queues (delete_queue g w) = (queues w)(g := None)"
  by (simp add: delete_queue_def)

lemma trace_delete_queue [simp]: "trace (delete_queue g w) = trace w"
  by (simp add: delete_queue_def)

lemma queues_ChangeChannel [simp]: "queues (ChangeChannel v c w) = queues w"
  by (simp add: ChangeChannel_def)

lemma queues_Sound_Play [simp]: "queues (Sound_Play s v w) = queues w"
  by (simp add: Sound_Play_def)

lemma queues_vc_Disconnect [simp]: "queues (vc_Disconnect v w) = queues w"
  by (simp add: vc_Disconnect_def)

lemma trace_vc_Disconnect [simp]: "trace (vc_Disconnect v w) = trace w @ [Disconnect v]"
  by (simp add: vc_Disconnect_def)

lemma queues_ChannelVoiceJoin:
  "ChannelVoiceJoin g c w = (x, w') \<Longrightarrow> queues w' = queues w"
  by (auto simp: ChannelVoiceJoin_def split: if_splits option.splits)

lemma queues_shrink_refl [simp]: "queues_shrink w w"
  unfolding queues_shrink_def by (metis drop0)

lemma queues_shrink_eq: "queues w' = queues w \<Longrightarrow> queues_shrink w w'"
  unfolding queues_shrink_def by (metis drop0)

lemma queues_shrink_trans:
  "queues_shrink w w' \<Longrightarrow> queues_shrink w' w'' \<Longrightarrow> queues_shrink w w''"
  unfolding queues_shrink_def by (metis drop_drop)

lemma queues_shrink_delete: "queues w' = (queues w)(g := None) \<Longrightarrow> queues_shrink w w'"
  unfolding queues_shrink_def by (metis drop0 fun_upd_apply option.distinct(1))

lemma queues_shrink_pop:
  "queues w g = Some ch \<Longrightarrow> pending ch = q # rest \<Longrightarrow>
   queues w' = (queues w)(g \<mapsto> ch\<lparr>pending := rest\<rparr>) \<Longrightarrow> queues_shrink w w'"
  unfolding queues_shrink_def
  apply (intro allI impI)
  subgoal for g' ch'
    apply (cases "g' = g")
     apply (rule exI [of _ ch], rule exI [of _ 1])
     apply (auto intro: exI [of _ 0])
    done
  done

lemma start_play_queues:
  "start_play play vc w = (x, w') \<Longrightarrow>
   queues w' = (case x of Inl (Returns (Some e)) \<Rightarrow> (queues w)(GuildID play := None) | _ \<Rightarrow> queues w)"
  by (auto simp: start_play_def Let_def ChannelVoiceJoin_def
      split: option.splits prod.splits sum.splits if_splits)

lemma start_play_shrinks: "start_play play vc w = (x, w') \<Longrightarrow> queues_shrink w w'"
  by (drule start_play_queues)
     (auto intro: queues_shrink_eq queues_shrink_delete split: sum.splits outcome.splits option.splits)

lemma idle_queues [simp]: "queues (idle play sound v w) = (queues w)(GuildID play := None)"
  by (simp add: idle_def)

text \<open>
  Induction over a run of \<^verbatim>\<open>playSound\<close> that has returned, one case for each way through
  the body: the call ends before the sound (\<open>stop\<close>), the chained call panics
  (\<open>chain_panic\<close>), the queue is empty after the play and its chain (\<open>idle\<close>), or the next
  queued play is received and played (\<open>dequeue\<close>).
\<close>

lemma playSound_induct [consumes 1, case_names stop chain_panic idle dequeue]:
  assumes run: "playSound n play vc w = Some (r, w')"
    and stop: "\<And>play vc w r w'. start_play play vc w = (Inl r, w') \<Longrightarrow> P play vc w r w'"
    and chain_panic: "\<And>n play vc w v sound w1 nx w2.
        start_play play vc w = (Inr (v, sound), w1) \<Longrightarrow> Next play = Some nx \<Longrightarrow>
        playSound n nx (Some v) w1 = Some (Panics, w2) \<Longrightarrow>
        P nx (Some v) w1 Panics w2 \<Longrightarrow> P play vc w Panics w2"
    and idle: "\<And>n play vc w v sound w1 e w2.
        start_play play vc w = (Inr (v, sound), w1) \<Longrightarrow>
        (Next play = None \<and> w2 = w1) \<or>
          (\<exists>nx. Next play = Some nx \<and> playSound n nx (Some v) w1 = Some (Returns e, w2) \<and>
             P nx (Some v) w1 (Returns e) w2) \<Longrightarrow>
        queues w2 (GuildID play) = None \<or>
          (\<exists>ch. queues w2 (GuildID play) = Some ch \<and> pending ch = []) \<Longrightarrow>
        P play vc w (Returns None) (idle play sound v w2)"
    and dequeue: "\<And>n play vc w v sound w1 e w2 ch q rest r3 w'.
        start_play play vc w = (Inr (v, sound), w1) \<Longrightarrow>
        (Next play = None \<and> w2 = w1) \<or>
          (\<exists>nx. Next play = Some nx \<and> playSound n nx (Some v) w1 = Some (Returns e, w2) \<and>
             P nx (Some v) w1 (Returns e) w2) \<Longrightarrow>
        queues w2 (GuildID play) = Some ch \<Longrightarrow> pending ch = q # rest \<Longrightarrow>
        playSound n q (Some v)
          (w2\<lparr>queues := (queues w2)(GuildID play \<mapsto> ch\<lparr>pending := rest\<rparr>)\<rparr>) = Some (r3, w') \<Longrightarrow>
        P q (Some v) (w2\<lparr>queues := (queues w2)(GuildID play \<mapsto> ch\<lparr>pending := rest\<rparr>)\<rparr>) r3 w' \<Longrightarrow>
        P play vc w (case r3 of Returns _ \<Rightarrow> Returns None | Panics \<Rightarrow> Panics) w'"
  shows "P play vc w r w'"
  using run
proof (induction n arbitrary: play vc w r w')
  case 0
  then show ?case by simp
next
  case (Suc n)
  obtain x w1 where sp: "start_play play vc w = (x, w1)"
    by (cases "start_play play vc w")
  show ?case
  proof (cases x)
    case (Inl a)
    with Suc.prems sp show ?thesis by (auto intro: stop)
  next
    case (Inr b)
    obtain v sound where b: "b = (v, sound)" by (cases b)
    note sp' = sp [unfolded Inr b]
    from Suc.prems sp' obtain r2 w2 where
      ch: "chained (playSound n) play v w1 = Some (r2, w2)"
      by (auto split: option.splits)
    show ?thesis
    proof (cases r2)
      case Panics
      with Suc.prems sp' ch have rw: "r = Panics" "w' = w2" by auto
      from ch Panics obtain nx where nx: "Next play = Some nx"
        and rec: "playSound n nx (Some v) w1 = Some (Panics, w2)"
        by (auto simp: chained_def split: option.splits)
      from chain_panic [OF sp' nx rec Suc.IH [OF rec]] rw show ?thesis by simp
    next
      case (Returns e)
      with Suc.prems sp' ch
      have ni: "next_or_idle (playSound n) play sound v w2 = Some (r, w')"
        by simp
      have chain: "(Next play = None \<and> w2 = w1) \<or>
          (\<exists>nx. Next play = Some nx \<and> playSound n nx (Some v) w1 = Some (Returns e, w2) \<and>
             P nx (Some v) w1 (Returns e) w2)"
        using ch Returns Suc.IH by (auto simp: chained_def split: option.splits)
      show ?thesis
      proof (cases "queues w2 (GuildID play)")
        case None
        with ni have "r = Returns None" "w' = idle play sound v w2"
          by (auto simp: next_or_idle_def)
        with idle [OF sp' chain] None show ?thesis by simp
      next
        case (Some ch)
        show ?thesis
        proof (cases "pending ch")
          case Nil
          with ni Some have "r = Returns None" "w' = idle play sound v w2"
            by (auto simp: next_or_idle_def)
          with idle [OF sp' chain] Some Nil show ?thesis by simp
        next
          case (Cons q rest)
          let ?w3 = "w2\<lparr>queues := (queues w2)(GuildID play \<mapsto> ch\<lparr>pending := rest\<rparr>)\<rparr>"
          from ni Some Cons obtain r3 where
            rec: "playSound n q (Some v) ?w3 = Some (r3, w')"
            and r: "r = (case r3 of Returns _ \<Rightarrow> Returns None | Panics \<Rightarrow> Panics)"
            by (auto simp: next_or_idle_def split: option.splits outcome.splits)
          from dequeue [OF sp' chain Some Cons rec Suc.IH [OF rec]] r show ?thesis by simp
        qed
      qed
    qed
  qed
qed

lemma playSound_shrinks:
  "playSound n play vc w = Some (r, w') \<Longrightarrow> queues_shrink w w'"
proof (induction rule: playSound_induct)
  case (stop play vc w r w')
  then show ?case by (rule start_play_shrinks)
next
  case (chain_panic n play vc w v sound w1 nx w2)
  then show ?case by (blast intro: queues_shrink_trans start_play_shrinks)
next
  case (idle n play vc w v sound w1 e w2)
  have "queues_shrink w2 (idle play sound v w2)"
    by (rule queues_shrink_delete) simp
  with idle show ?case
    by (blast intro: queues_shrink_trans start_play_shrinks)
next
  case (dequeue n play vc w v sound w1 e w2 ch q rest r3 w')
  have "queues_shrink w2 (w2\<lparr>queues := (queues w2)(GuildID play \<mapsto> ch\<lparr>pending := rest\<rparr>)\<rparr>)"
    using dequeue by (intro queues_shrink_pop [of w2 "GuildID play" ch q rest]) simp_all
  with dequeue show ?case
    by (blast intro: queues_shrink_trans start_play_shrinks)
qed

lemma queue_ok_shrink: "queues_shrink w w' \<Longrightarrow> queue_ok g w \<Longrightarrow> queue_ok g w'"
  unfolding queues_shrink_def queue_ok_def by (metis in_set_dropD)

lemma start_play_Inl:
  "start_play play vc w = (Inl r, w') \<Longrightarrow>
     (r = Panics \<and> Sound play = None \<and> queues w' = queues w) \<or>
     (r = Returns (Some ErrVoice) \<and> vc = None \<and> \<not> voice_up w (GuildID play) (ChannelID play) \<and>
      w' = delete_queue (GuildID play)
             (emit [Log_Playing play, VoiceJoinFailed (GuildID play) (ChannelID play),
                    Log_Failed ErrVoice] w))"
  by (auto simp: start_play_def Let_def ChannelVoiceJoin_def emit_def
      split: option.splits prod.splits sum.splits if_splits)

text \<open>After a run that returned, the guild of the play it was called on has no queue.\<close>

lemma playSound_leaves_idle:
  "playSound n play vc w = Some (r, w') \<Longrightarrow> queue_ok (GuildID play) w \<Longrightarrow> r \<noteq> Panics \<Longrightarrow>
   queues w' (GuildID play) = None"
proof (induction rule: playSound_induct)
  case (stop play vc w r w')
  then show ?case
    by (auto dest!: start_play_Inl)
next
  case (chain_panic n play vc w v sound w1 nx w2)
  then show ?case by simp
next
  case (idle n play vc w v sound w1 e w2)
  then show ?case by simp
next
  case (dequeue n play vc w v sound w1 e w2 ch q rest r3 w')
  let ?w3 = "w2\<lparr>queues := (queues w2)(GuildID play \<mapsto> ch\<lparr>pending := rest\<rparr>)\<rparr>"
  note sp = \<open>start_play play vc w = (Inr (v, sound), w1)\<close>
  note qu = \<open>queues w2 (GuildID play) = Some ch\<close>
  note pe = \<open>pending ch = q # rest\<close>
  have s1: "queues_shrink w w1"
    using sp by (rule start_play_shrinks)
  have s2: "queues_shrink w1 w2"
    using dequeue.IH(1) by (auto intro: playSound_shrinks)
  have s3: "queues_shrink w2 ?w3"
    using qu pe by (rule queues_shrink_pop) simp
  have ok2: "queue_ok (GuildID play) w2"
    using s1 s2 \<open>queue_ok (GuildID play) w\<close> by (blast intro: queue_ok_shrink)
  have ok3: "queue_ok (GuildID play) ?w3"
    using s3 ok2 by (rule queue_ok_shrink)
  have g: "GuildID q = GuildID play"
    using ok2 qu pe by (simp add: queue_ok_def)
  have r3: "r3 \<noteq> Panics"
    using dequeue.prems(2) by (cases r3) auto
  have "queues w' (GuildID q) = None"
    using ok3 r3 dequeue.IH(2) unfolding g by blast
  then show ?case by (simp only: g)
qed

lemma chain_length_pos [simp]: "0 < chain_length p"
  by (cases p) simp

lemma chain_length_Next: "Next p = Some nx \<Longrightarrow> chain_length p = Suc (chain_length nx)"
  by (cases p) simp

lemma in_guild_GuildID: "in_guild g p \<Longrightarrow> GuildID p = g"
  by (cases p) simp

lemma in_guild_Next: "in_guild g p \<Longrightarrow> Next p = Some nx \<Longrightarrow> in_guild g nx"
  by (cases p) simp

lemma sum_list_drop_le: "sum_list (drop k (xs :: nat list)) \<le> sum_list xs"
  by (metis append_take_drop_id le_add2 sum_list_append)

lemma queued_length_shrink:
  assumes "queues_shrink w w'"
  shows "queued_length g w' \<le> queued_length g w"
proof (cases "queues w' g")
  case None
  then show ?thesis by (simp add: queued_length_def)
next
  case (Some ch')
  with assms obtain ch k where ch: "queues w g = Some ch" "pending ch' = drop k (pending ch)"
    unfolding queues_shrink_def by blast
  have "sum_list (map chain_length (drop k (pending ch))) \<le> sum_list (map chain_length (pending ch))"
    unfolding drop_map [symmetric] by (rule sum_list_drop_le)
  with Some ch show ?thesis by (simp add: queued_length_def)
qed

lemma queue_in_guild_shrink: "queues_shrink w w' \<Longrightarrow> queue_in_guild g w \<Longrightarrow> queue_in_guild g w'"
  unfolding queues_shrink_def queue_in_guild_def by (metis in_set_dropD)

lemma start_play_Inr_queues:
  "start_play play vc w = (Inr x, w1) \<Longrightarrow> queues w1 = queues w"
  by (drule start_play_queues) simp

text \<open>
  A run returns when every play involved is a play of one guild: depth
  \<open>chain_length play + queued_length g w\<close> is enough.
\<close>

lemma playSound_returns_aux:
  "in_guild g play \<Longrightarrow> queue_in_guild g w \<Longrightarrow> chain_length play + queued_length g w \<le> n \<Longrightarrow>
   \<exists>r w'. playSound n play vc w = Some (r, w')"
proof (induction n arbitrary: play vc w)
  case 0
  then show ?case using chain_length_pos [of play] by simp
next
  case (Suc n)
  note g = in_guild_GuildID [OF Suc.prems(1)]
  obtain x w1 where sp: "start_play play vc w = (x, w1)"
    by (cases "start_play play vc w")
  show ?case
  proof (cases x)
    case (Inl a)
    with sp show ?thesis by simp
  next
    case (Inr b)
    obtain v sound where b: "b = (v, sound)" by (cases b)
    note sp' = sp [unfolded Inr b]
    have q1: "queues w1 = queues w"
      using sp' by (rule start_play_Inr_queues)
    then have l1: "queued_length g w1 = queued_length g w" and ok1: "queue_in_guild g w1"
      using Suc.prems(2) by (simp_all add: queued_length_def queue_in_guild_def)
    have "\<exists>r2 w2. chained (playSound n) play v w1 = Some (r2, w2) \<and> queues_shrink w1 w2"
    proof (cases "Next play")
      case None
      then show ?thesis by (simp add: chained_def)
    next
      case (Some nx)
      have "chain_length nx + queued_length g w1 \<le> n"
        using Suc.prems(3) l1 chain_length_Next [OF Some] by simp
      from Suc.IH [OF in_guild_Next [OF Suc.prems(1) Some] ok1 this, of "Some v"]
      obtain r2 w2 where "playSound n nx (Some v) w1 = Some (r2, w2)" by blast
      with Some show ?thesis
        by (auto simp: chained_def intro: playSound_shrinks)
    qed
    then obtain r2 w2 where ch: "chained (playSound n) play v w1 = Some (r2, w2)"
      and s2: "queues_shrink w1 w2" by blast
    show ?thesis
    proof (cases r2)
      case Panics
      with sp' ch show ?thesis by simp
    next
      case (Returns e)
      have l2: "queued_length g w2 \<le> queued_length g w"
        using queued_length_shrink [OF s2, of g] l1 by simp
      have ok2: "queue_in_guild g w2"
        using s2 ok1 by (rule queue_in_guild_shrink)
      have "\<exists>r w'. next_or_idle (playSound n) play sound v w2 = Some (r, w')"
      proof (cases "queues w2 g")
        case None
        then show ?thesis by (simp add: next_or_idle_def g)
      next
        case (Some ch)
        show ?thesis
        proof (cases "pending ch")
          case Nil
          with Some show ?thesis by (simp add: next_or_idle_def g)
        next
          case (Cons q rest)
          let ?w3 = "w2\<lparr>queues := (queues w2)(g \<mapsto> ch\<lparr>pending := rest\<rparr>)\<rparr>"
          have qg: "in_guild g q"
            using ok2 Some Cons by (simp add: queue_in_guild_def)
          have ok3: "queue_in_guild g ?w3"
            using ok2 Some Cons by (simp add: queue_in_guild_def)
          have "chain_length q + queued_length g ?w3 = queued_length g w2"
            using Some Cons by (simp add: queued_length_def)
          then have "chain_length q + queued_length g ?w3 \<le> n"
            using l2 Suc.prems(3) chain_length_pos [of play] by linarith
          from Suc.IH [OF qg ok3 this, of "Some v"]
          obtain r3 w' where "playSound n q (Some v) ?w3 = Some (r3, w')" by blast
          with Some Cons show ?thesis
            by (cases r3) (simp_all add: next_or_idle_def g)
        qed
      qed
      with sp' ch Returns show ?thesis by simp
    qed
  qed
qed

lemma same_session_refl: "trace w' = trace w \<Longrightarrow> same_session v w w'"
  by (simp add: same_session_def)

lemma same_session_trans:
  "same_session v w w' \<Longrightarrow> same_session v w' w'' \<Longrightarrow> same_session v w w''"
  unfolding same_session_def
  by (elim exE conjE, rule_tac x = "es @ esa" in exI) auto

lemma same_session_emit:
  "\<forall>e \<in> set es. \<not> is_join e \<and> on_conn v e \<Longrightarrow> same_session v w (emit es w)"
  by (auto simp: same_session_def)

lemma trace_ChangeChannel [simp]: "trace (ChangeChannel v c w) = trace w @ [ChannelChange v c]"
  by (simp add: ChangeChannel_def)

lemma trace_Sound_Play [simp]:
  "trace (Sound_Play s v w) =
     trace w @ [Speaking v True] @ map (OpusSend v) (buffer s) @ [Speaking v False]"
  by (simp add: Sound_Play_def)

lemma trace_idle [simp]:
  "trace (idle play sound v w) = trace w @ [Sleep (PartDelay sound), Disconnect v]"
  by (simp add: idle_def)

lemma start_play_supplied:
  "start_play play (Some v) w = (x, w1) \<Longrightarrow>
     same_session v w w1 \<and> (\<forall>v' s. x = Inr (v', s) \<longrightarrow> v' = v)"
  by (auto simp: start_play_def Let_def same_session_def split: option.splits if_splits)

lemma playSound_same_session:
  "playSound n play vc w = Some (r, w') \<Longrightarrow> vc = Some v \<Longrightarrow> same_session v w w'"
proof (induction arbitrary: v rule: playSound_induct)
  case (stop play vc w r w')
  then show ?case by (auto dest: start_play_supplied)
next
  case (chain_panic n play vc w v' sound w1 nx w2)
  from chain_panic(1,5) have "same_session v w w1" "v' = v"
    by (auto dest: start_play_supplied)
  with chain_panic(4) [of v] show ?case
    by (auto intro: same_session_trans)
next
  case (idle n play vc w v' sound w1 e w2)
  from idle.hyps(1) idle.prems have a: "same_session v w w1" and v: "v' = v"
    by (auto dest: start_play_supplied)
  have b: "same_session v w1 w2"
    using idle.IH v by (auto intro: same_session_refl)
  have c: "same_session v w2 (idle play sound v w2)"
    by (simp add: same_session_def)
  from a b c show ?case unfolding v by (blast intro: same_session_trans)
next
  case (dequeue n play vc w v' sound w1 e w2 ch q rest r3 w')
  let ?w3 = "w2\<lparr>queues := (queues w2)(GuildID play \<mapsto> ch\<lparr>pending := rest\<rparr>)\<rparr>"
  from dequeue.hyps(1) dequeue.prems have a: "same_session v w w1" and v: "v' = v"
    by (auto dest: start_play_supplied)
  have b: "same_session v w1 w2"
    using dequeue.IH(1) v by (auto intro: same_session_refl)
  have c: "same_session v w2 ?w3"
    by (rule same_session_refl) simp
  have d: "same_session v ?w3 w'"
    using dequeue.IH(2) v by simp
  from a b c d show ?case by (blast intro: same_session_trans)
qed

text \<open>A run only adds events.\<close>

lemma start_play_trace: "start_play play vc w = (x, w1) \<Longrightarrow> \<exists>es. trace w1 = trace w @ es"
  by (auto simp: start_play_def Let_def ChannelVoiceJoin_def
      split: option.splits if_splits prod.splits sum.splits)

lemma playSound_trace:
  "playSound n play vc w = Some (r, w') \<Longrightarrow> \<exists>es. trace w' = trace w @ es"
proof (induction rule: playSound_induct)
  case (stop play vc w r w')
  then show ?case by (rule start_play_trace)
next
  case (chain_panic n play vc w v sound w1 nx w2)
  then show ?case by (auto dest!: start_play_trace)
next
  case (idle n play vc w v sound w1 e w2)
  then show ?case by (auto dest!: start_play_trace)
next
  case (dequeue n play vc w v sound w1 e w2 ch q rest r3 w')
  then show ?case by (auto dest!: start_play_trace)
qed

section \<open>Play requests and queues\<close>

lemma createPlay_world:
  "createPlay raw raw' user guild coll sound w = (Returns (Some play), w1) \<Longrightarrow> w1 = w"
  by (auto simp: createPlay_def split: option.splits outcome.splits prod.splits)

lemma createPlay_GuildID:
  "createPlay raw raw' user guild coll sound w = (Returns (Some play), w1) \<Longrightarrow>
   GuildID play = Guild_ID guild"
  by (auto simp: createPlay_def split: option.splits outcome.splits prod.splits)

lemma createPlay_in_guild:
  "createPlay raw raw' user guild coll sound w = (Returns (Some play), w1) \<Longrightarrow>
   in_guild (GuildID play) play"
  by (auto simp: createPlay_def split: option.splits outcome.splits prod.splits)

lemma enqueue_absent:
  "queues w g = None \<Longrightarrow>
   enqueue fuel g play w =
     (case playSound fuel play None
             (w\<lparr>queues := (queues w)(g \<mapsto> \<lparr>cap = MAX_QUEUE_SIZE, pending = []\<rparr>)\<rparr>) of
        None \<Rightarrow> None
      | Some (Panics, w') \<Rightarrow> Some (Crashed, w')
      | Some (Returns e, w') \<Rightarrow> Some (Finished, w'))"
  by (simp add: enqueue_def)

lemma playSound_join_fails:
  "\<not> voice_up w (GuildID play) (ChannelID play) \<Longrightarrow>
   playSound (Suc n) play None w =
     Some (Returns (Some ErrVoice),
       w\<lparr>queues := (queues w)(GuildID play := None),
         trace := trace w @ [Log_Playing play,
           VoiceJoinFailed (GuildID play) (ChannelID play), Log_Failed ErrVoice]\<rparr>)"
  by (simp add: start_play_def ChannelVoiceJoin_def emit_def delete_queue_def)

lemma enqueue_room:
  "queues w g = Some ch \<Longrightarrow> length (pending ch) < MAX_QUEUE_SIZE \<Longrightarrow>
   length (pending ch) < cap ch \<Longrightarrow>
   enqueue fuel g play w =
     Some (Finished, w\<lparr>queues := (queues w)(g \<mapsto> ch\<lparr>pending := pending ch @ [play]\<rparr>)\<rparr>)"
  by (simp add: enqueue_def)

lemma enqueue_full:
  "queues w g = Some ch \<Longrightarrow> MAX_QUEUE_SIZE \<le> length (pending ch) \<Longrightarrow>
   enqueue fuel g play w = Some (Finished, w)"
  by (simp add: enqueue_def)

lemma enqueue_each_present:
  "queues w g = Some ch \<Longrightarrow> cap ch = MAX_QUEUE_SIZE \<Longrightarrow>
   enqueue_each fuel g plays w =
     Some (replicate (length plays) Finished,
       w\<lparr>queues := (queues w)(g \<mapsto>
            ch\<lparr>pending := pending ch @ take (MAX_QUEUE_SIZE - length (pending ch)) plays\<rparr>)\<rparr>)"
proof (induction plays arbitrary: w ch)
  case Nil
  then show ?case by (simp add: map_upd_triv)
next
  case (Cons p plays)
  show ?case
  proof (cases "length (pending ch) < MAX_QUEUE_SIZE")
    case True
    let ?ch' = "ch\<lparr>pending := pending ch @ [p]\<rparr>"
    let ?w' = "w\<lparr>queues := (queues w)(g \<mapsto> ?ch')\<rparr>"
    have e: "enqueue fuel g p w = Some (Finished, ?w')"
      using Cons.prems True by (simp add: enqueue_room)
    have IH: "enqueue_each fuel g plays ?w' =
        Some (replicate (length plays) Finished,
          ?w'\<lparr>queues := (queues ?w')(g \<mapsto>
            ?ch'\<lparr>pending := pending ?ch' @ take (MAX_QUEUE_SIZE - length (pending ?ch')) plays\<rparr>)\<rparr>)"
      by (rule Cons.IH) (use Cons.prems in simp_all)
    have tk: "take (MAX_QUEUE_SIZE - length (pending ch)) (p # plays) =
        p # take (MAX_QUEUE_SIZE - Suc (length (pending ch))) plays"
    proof -
      have "MAX_QUEUE_SIZE - length (pending ch) = Suc (MAX_QUEUE_SIZE - Suc (length (pending ch)))"
        using True by simp
      then show ?thesis by (simp only: take_Suc_Cons)
    qed
    have weq: "?w'\<lparr>queues := (queues ?w')(g \<mapsto>
            ?ch'\<lparr>pending := pending ?ch' @ take (MAX_QUEUE_SIZE - length (pending ?ch')) plays\<rparr>)\<rparr> =
        w\<lparr>queues := (queues w)(g \<mapsto>
            ch\<lparr>pending := pending ch @ take (MAX_QUEUE_SIZE - length (pending ch)) (p # plays)\<rparr>)\<rparr>"
      unfolding tk by simp
    have "enqueue_each fuel g (p # plays) w =
        (case enqueue_each fuel g plays ?w' of
           None \<Rightarrow> None
         | Some (rs, w'') \<Rightarrow> Some (Finished # rs, w''))"
      by (simp add: e)
    also have "\<dots> = Some (Finished # replicate (length plays) Finished,
          ?w'\<lparr>queues := (queues ?w')(g \<mapsto>
            ?ch'\<lparr>pending := pending ?ch' @ take (MAX_QUEUE_SIZE - length (pending ?ch')) plays\<rparr>)\<rparr>)"
      by (simp only: IH option.case prod.case)
    finally show ?thesis
      by (simp only: weq replicate_Suc length_Cons)
  next
    case False
    then have e: "enqueue fuel g p w = Some (Finished, w)"
      using Cons.prems by (simp add: enqueue_full)
    from Cons.IH [OF Cons.prems] e False show ?thesis
      by simp
  qed
qed

lemma next_or_idle_dequeue:
  "queues w (GuildID play) = Some ch \<Longrightarrow> pending ch = queued # rest \<Longrightarrow>
   next_or_idle call play sound v w =
     (case call queued (Some v) (w\<lparr>queues := (queues w)(GuildID play \<mapsto> ch\<lparr>pending := rest\<rparr>)\<rparr>) of
        None \<Rightarrow> None
      | Some (Returns e, w') \<Rightarrow> Some (Returns None, w')
      | Some (Panics, w') \<Rightarrow> Some (Panics, w'))"
  by (simp add: next_or_idle_def)

lemma next_or_idle_empty:
  "queues w (GuildID play) = None \<or>
     (\<exists>ch. queues w (GuildID play) = Some ch \<and> pending ch = []) \<Longrightarrow>
   next_or_idle call play sound v w =
     Some (Returns None,
       w\<lparr>queues := (queues w)(GuildID play := None),
         VoiceConnections := (VoiceConnections w)(vc_GuildID (conns w v) := None),
         trace := trace w @ [Sleep (PartDelay sound), Disconnect v]\<rparr>)"
  by (auto simp: next_or_idle_def idle_def emit_def delete_queue_def vc_Disconnect_def)

lemma playSound_fresh_trace:
  assumes "playSound n play None w = Some (r, w')"
  shows "\<exists>es. trace w' = trace w @ Log_Playing play #
      (if voice_up w (GuildID play) (ChannelID play)
       then VoiceJoin (GuildID play) (ChannelID play) (join_address w (GuildID play))
       else VoiceJoinFailed (GuildID play) (ChannelID play)) # es"
proof (cases n)
  case 0
  with assms show ?thesis by simp
next
  case (Suc k)
  obtain x w1 where sp: "start_play play None w = (x, w1)"
    by (cases "start_play play None w")
  then have 1: "\<exists>es. trace w1 = trace w @ Log_Playing play #
      (if voice_up w (GuildID play) (ChannelID play)
       then VoiceJoin (GuildID play) (ChannelID play) (join_address w (GuildID play))
       else VoiceJoinFailed (GuildID play) (ChannelID play)) # es"
    by (auto simp: start_play_def Let_def ChannelVoiceJoin_def emit_def ChangeChannel_def
        Sound_Play_def join_address_def split: if_splits option.splits)
  have 2: "\<exists>es. trace w' = trace w1 @ es"
  proof (cases x)
    case (Inl a)
    with assms Suc sp show ?thesis by simp
  next
    case (Inr b)
    obtain v sound where b: "b = (v, sound)" by (cases b)
    from assms Suc sp Inr b obtain r2 w2 where
      ch: "chained (playSound k) play v w1 = Some (r2, w2)"
      by (auto split: option.splits)
    then have t2: "\<exists>es. trace w2 = trace w1 @ es"
      by (auto simp: chained_def split: option.splits dest: playSound_trace)
    show ?thesis
    proof (cases r2)
      case Panics
      with assms Suc sp Inr b ch t2 show ?thesis by simp
    next
      case (Returns e)
      with assms Suc sp Inr b ch
      have ni: "next_or_idle (playSound k) play sound v w2 = Some (r, w')"
        by simp
      have "\<exists>es. trace w' = trace w2 @ es"
      proof (cases "queues w2 (GuildID play)")
        case None
        with ni show ?thesis by (auto simp: next_or_idle_def)
      next
        case (Some ch)
        show ?thesis
        proof (cases "pending ch")
          case Nil
          with ni Some show ?thesis by (auto simp: next_or_idle_def)
        next
          case (Cons q rest)
          with ni Some obtain r3 where
            "playSound k q (Some v)
               (w2\<lparr>queues := (queues w2)(GuildID play \<mapsto> ch\<lparr>pending := rest\<rparr>)\<rparr>) = Some (r3, w')"
            by (auto simp: next_or_idle_def split: option.splits outcome.splits)
          from playSound_trace [OF this] show ?thesis by simp
        qed
      qed
      with t2 show ?thesis by auto
    qed
  qed
  from 1 2 show ?thesis by auto
qed

lemma start_play_Inr:
  assumes "start_play play vc w = (Inr (v, s), w1)"
  shows "Sound play = Some s \<and> vc_ChannelID (conns w1 v) = ChannelID play \<and>
     queues w1 = queues w \<and>
     (\<exists>pre. trace w1 =
        trace w @ pre @ [Speaking v True] @ map (OpusSend v) (buffer s) @ [Speaking v False])"
proof -
  obtain j w0 where j: "(case vc of
              None \<Rightarrow> ChannelVoiceJoin (GuildID play) (ChannelID play) (emit [Log_Playing play] w)
            | Some v \<Rightarrow> (Inr v, emit [Log_Playing play] w)) = (j, w0)"
    by (cases "case vc of
              None \<Rightarrow> ChannelVoiceJoin (GuildID play) (ChannelID play) (emit [Log_Playing play] w)
            | Some v \<Rightarrow> (Inr v, emit [Log_Playing play] w)")
  from assms j have jv: "j = Inr v"
    by (auto simp: start_play_def Let_def split: sum.splits option.splits)
  have t0: "\<exists>pre. trace w0 = trace w @ pre" and q0: "queues w0 = queues w"
    using j by (auto simp: ChannelVoiceJoin_def split: option.splits if_splits)
  define w2 where "w2 = (if vc_ChannelID (conns w0 v) \<noteq> ChannelID play
                     then emit [Sleep 125] (ChangeChannel v (ChannelID play) w0)
                     else w0)"
  have c2: "vc_ChannelID (conns w2 v) = ChannelID play"
    by (simp add: w2_def emit_def ChangeChannel_def)
  have t2: "\<exists>pre. trace w2 = trace w0 @ pre" and q2: "queues w2 = queues w0"
    by (simp_all add: w2_def)
  from assms j jv have s: "Sound play = Some s"
    and w1: "w1 = Sound_Play s v (emit [TrackStats play, Sleep 32] w2)"
    by (auto simp: start_play_def Let_def w2_def split: option.splits)
  have c1: "vc_ChannelID (conns w1 v) = ChannelID play"
    using c2 by (simp add: w1 Sound_Play_def emit_def)
  from t0 t2 obtain p0 p2 where "trace w0 = trace w @ p0" "trace w2 = trace w0 @ p2"
    by blast
  then have "trace w1 = trace w @ (p0 @ p2 @ [TrackStats play, Sleep 32]) @
      [Speaking v True] @ map (OpusSend v) (buffer s) @ [Speaking v False]"
    by (simp add: w1)
  then have "\<exists>pre. trace w1 =
        trace w @ pre @ [Speaking v True] @ map (OpusSend v) (buffer s) @ [Speaking v False]"
    by (rule exI)
  with s c1 q0 q2 show ?thesis by (simp add: w1)
qed

lemma start_play_acquired:
  assumes "Sound play = Some s"
    and "vc \<noteq> None \<or> voice_up w (GuildID play) (ChannelID play)"
  shows "\<exists>v w1. start_play play vc w = (Inr (v, s), w1)"
proof -
  obtain x w1 where sp: "start_play play vc w = (x, w1)"
    by (cases "start_play play vc w")
  show ?thesis
  proof (cases x)
    case (Inl r)
    with sp assms start_play_Inl [of play vc w r w1] show ?thesis by auto
  next
    case (Inr b)
    obtain v s2 where "b = (v, s2)" by (cases b)
    with sp Inr have e: "start_play play vc w = (Inr (v, s2), w1)" by simp
    from start_play_Inr [OF e] assms(1) have "s2 = s" by simp
    with e show ?thesis by blast
  qed
qed

lemma start_play_follow:
  "vc_ChannelID (conns w v) = ChannelID play \<Longrightarrow> Sound play = Some s \<Longrightarrow>
   start_play play (Some v) w =
     (Inr (v, s), Sound_Play s v (emit [Log_Playing play, TrackStats play, Sleep 32] w))"
  by (simp add: start_play_def emit_def)

section \<open>Goroutines side by side\<close>

lemma return_to_ok: "callers_in g callers \<Longrightarrow> task_ok (return_to callers)"
proof (induction callers rule: return_to.induct)
  case 1
  then show ?case by simp
next
  case (2 play sound vc callers)
  then show ?case
    by (auto simp: callers_in_def dest: in_guild_GuildID)
next
  case (3 play sound vc callers)
  then show ?case by (simp add: callers_in_def)
qed

lemma return_to_owns:
  "callers_in g callers \<Longrightarrow> return_to callers \<noteq> Ended \<Longrightarrow> owns g (return_to callers)"
proof (induction callers rule: return_to.induct)
  case 1
  then show ?case by simp
next
  case (2 play sound vc callers)
  then show ?case
    by (auto simp: callers_in_def dest: in_guild_GuildID)
next
  case (3 play sound vc callers)
  then show ?case by (simp add: callers_in_def)
qed

text \<open>
  What one step of a goroutine keeps: its plays stay plays of one guild, the queues stay
  queues of their guilds, an entry that is new belongs to the goroutine, and a goroutine
  that stops owning a run has deleted the entry.
\<close>

lemma act_keeps:
  assumes ok: "task_ok t" and q: "\<forall>g. queue_in_guild g w"
    and a: "act t w = (Returns t', w')"
  shows "task_ok t' \<and> (\<forall>g. queue_in_guild g w') \<and>
     (\<forall>g. queues w' g \<noteq> None \<longrightarrow> queues w g \<noteq> None \<or> owns g t') \<and>
     (\<forall>g. owns g t \<longrightarrow> owns g t' \<or> queues w' g = None)"
proof (cases t)
  case (At_exists play)
  with ok a show ?thesis using q by (auto split: if_splits)
next
  case (At_send play)
  with ok a q show ?thesis
    by (auto simp: queue_in_guild_def split: option.splits if_splits)
next
  case (At_make play)
  with ok a q show ?thesis
    by (auto simp: queue_in_guild_def callers_in_def split: if_splits)
next
  case (At_call play vc callers)
  obtain x w1 where sp: "start_play play vc w = (x, w1)"
    by (cases "start_play play vc w")
  show ?thesis
  proof (cases x)
    case (Inl r)
    with a At_call sp obtain e where r: "r = Returns e" and t': "t' = return_to callers"
      and w': "w' = w1"
      by (cases r) auto
    from start_play_Inl [OF sp [unfolded Inl]] r
    have qs: "queues w1 = (queues w)(GuildID play := None)"
      by auto
    have "task_ok t'"
      using ok At_call t' by (auto intro: return_to_ok)
    moreover have "\<forall>g. queue_in_guild g w'"
      using q qs w' by (auto simp: queue_in_guild_def)
    ultimately show ?thesis
      using At_call qs w' by auto
  next
    case (Inr b)
    obtain v sound where b: "b = (v, sound)" by (cases b)
    from a At_call sp Inr b have t': "t' = At_next play sound v callers" and w': "w' = w1"
      by auto
    from start_play_Inr_queues [OF sp [unfolded Inr]] have qs: "queues w1 = queues w" .
    have "\<forall>g. queue_in_guild g w'"
      using q qs w' by (auto simp: queue_in_guild_def)
    then show ?thesis
      using ok At_call t' qs w' by auto
  qed
next
  case (At_next play sound vc callers)
  show ?thesis
  proof (cases "Next play")
    case None
    with a At_next ok q show ?thesis by auto
  next
    case (Some nx)
    have "in_guild (GuildID play) nx"
      using ok At_next Some by (auto intro: in_guild_Next)
    then have "GuildID nx = GuildID play" "in_guild (GuildID nx) nx"
      using in_guild_GuildID [of "GuildID play" nx] by simp_all
    with a At_next ok q Some show ?thesis
      by (auto simp: callers_in_def)
  qed
next
  case (At_queue play sound vc callers)
  show ?thesis
  proof (cases "queues w (GuildID play)")
    case None
    with a At_queue ok q show ?thesis by auto
  next
    case (Some ch)
    show ?thesis
    proof (cases "pending ch")
      case Nil
      with a At_queue ok q Some show ?thesis by auto
    next
      case (Cons queued rest)
      have iq: "in_guild (GuildID play) queued" and ir: "\<forall>p \<in> set rest. in_guild (GuildID play) p"
        using q Some Cons by (auto simp: queue_in_guild_def)
      then have g: "GuildID queued = GuildID play"
        by (auto dest: in_guild_GuildID)
      from a At_queue Some Cons
      have t': "t' = At_call queued (Some vc) ((play, sound, vc, In_queue) # callers)"
        and w': "w' = w\<lparr>queues := (queues w)(GuildID play \<mapsto> ch\<lparr>pending := rest\<rparr>)\<rparr>"
        by auto
      have "task_ok t'"
        using ok At_queue iq g t' by (simp add: callers_in_def)
      moreover have "\<forall>g. queue_in_guild g w'"
        using q ir w' by (auto simp: queue_in_guild_def)
      ultimately show ?thesis
        using At_queue Some t' w' g by auto
    qed
  qed
next
  case (At_sleep play sound vc callers)
  with a ok q show ?thesis by (auto simp: queue_in_guild_def)
next
  case (At_delete play sound vc callers)
  with a ok q show ?thesis by (auto simp: queue_in_guild_def split: if_splits)
next
  case (At_disconnect play sound vc callers)
  with a ok q show ?thesis
    by (auto simp: queue_in_guild_def intro: return_to_ok return_to_owns)
next
  case Ended
  with a ok q show ?thesis by auto
next
  case Stuck
  with a ok q show ?thesis by auto
qed

lemma step_keeps:
  assumes "coherent sys" and "entries_owned sys" and "\<not> crashed (step i sys)"
  shows "coherent (step i sys) \<and> entries_owned (step i sys)"
proof (cases "crashed sys \<or> length (tasks sys) \<le> i")
  case True
  with assms show ?thesis by (simp add: step_def)
next
  case False
  then have i: "i < length (tasks sys)" and nc: "\<not> crashed sys" by auto
  let ?t = "tasks sys ! i"
  obtain r w' where a: "act ?t (shared sys) = (r, w')"
    by (cases "act ?t (shared sys)")
  from assms(3) False a obtain t' where r: "r = Returns t'"
    by (cases r) (auto simp: step_def)
  have st: "step i sys = sys\<lparr>shared := w', tasks := (tasks sys)[i := t']\<rparr>"
    using False a r by (simp add: step_def)
  have ok: "task_ok ?t"
    using assms(1) i by (auto simp: coherent_def)
  have q: "\<forall>g. queue_in_guild g (shared sys)"
    using assms(1) by (simp add: coherent_def)
  note k = act_keeps [OF ok q a [unfolded r]]
  have c: "coherent (step i sys)"
    unfolding st coherent_def
    using k assms(1) by (auto simp: coherent_def dest!: set_update_subset_insert [THEN subsetD])
  have "entries_owned (step i sys)"
    unfolding st entries_owned_def
  proof (intro allI impI)
    fix g
    assume e: "queues (shared (sys\<lparr>shared := w', tasks := (tasks sys)[i := t']\<rparr>)) g \<noteq> None"
    then have e': "queues w' g \<noteq> None" by simp
    have t'_in: "t' \<in> set ((tasks sys)[i := t'])"
      using i by (simp add: set_update_memI)
    show "\<exists>t \<in> set (tasks (sys\<lparr>shared := w', tasks := (tasks sys)[i := t']\<rparr>)). owns g t"
    proof (cases "owns g t'")
      case True
      with t'_in show ?thesis by auto
    next
      case False
      with k e' have old: "queues (shared sys) g \<noteq> None" by blast
      with assms(2) obtain u where u: "u \<in> set (tasks sys)" "owns g u"
        by (auto simp: entries_owned_def)
      then obtain j where j: "j < length (tasks sys)" "tasks sys ! j = u"
        by (auto simp: in_set_conv_nth)
      have "j \<noteq> i"
      proof
        assume "j = i"
        with j u have "owns g ?t" by simp
        from k [THEN conjunct2, THEN conjunct2, THEN conjunct2, rule_format, OF this] False e'
        show False by simp
      qed
      with j have "(tasks sys)[i := t'] ! j = u" "j < length ((tasks sys)[i := t'])"
        by simp_all
      then have "u \<in> set ((tasks sys)[i := t'])"
        by (metis nth_mem)
      with u show ?thesis by auto
    qed
  qed
  with c show ?thesis by simp
qed

lemma step_crashed: "crashed sys \<Longrightarrow> step i sys = sys"
  by (simp add: step_def)

lemma exec_crashed: "crashed sys \<Longrightarrow> exec schedule sys = sys"
  by (induction schedule) (simp_all add: step_crashed)

lemma exec_keeps:
  "coherent sys \<Longrightarrow> entries_owned sys \<Longrightarrow>
   crashed (exec schedule sys) \<or> (coherent (exec schedule sys) \<and> entries_owned (exec schedule sys))"
proof (induction schedule arbitrary: sys)
  case Nil
  then show ?case by simp
next
  case (Cons i schedule)
  show ?case
  proof (cases "crashed (step i sys)")
    case True
    then show ?thesis by (simp add: exec_crashed)
  next
    case False
    from step_keeps [OF Cons.prems False] Cons.IH [of "step i sys"]
    show ?thesis by simp
  qed
qed

section \<open>Unfolding the example values\<close>

lemmas run_defs = start_play_def ChannelVoiceJoin_def ChangeChannel_def emit_def chained_def
  next_or_idle_def idle_def delete_queue_def vc_Disconnect_def Sound_Play_def Let_def

lemmas example_defs = world0_def play_one_def play_two_def airhorn_default_def createSound_def
  queued_one_def first_played_def both_played_def run_active_def

lemmas chain_example_defs = clip_horn_def clip_one_def airhorn_loaded_def khaled_loaded_def
  guild_one_def follow_up_def chained_play_def one_played_def clip_short_def short_follow_def
  chained_short_def

section \<open>The claims\<close>

subsection \<open>Submitting a play\<close>

text \<open>
  C1. A play made by \<^verbatim>\<open>createPlay\<close> is handed to lines 505 to 517 with the guild's id.
  Without an entry for the guild, an empty channel of capacity 6 is stored for it and
  \<^verbatim>\<open>playSound\<close> is called with the play and no connection: the play is not put in the
  channel. With an entry that holds fewer than 6 plays, the play is appended. With an
  entry that holds 6, nothing changes and the goroutine ends as in the other cases. Seven
  plays handed over one after the other while the entry exists and is empty leave the
  first six in the queue.
\<close>

theorem enqueue_three_ways:
  "(\<forall>w1. createPlay raw raw' user guild coll sound w = (Returns (Some play), w1) \<longrightarrow>
      enqueuePlay fuel raw raw' user guild coll sound w = enqueue fuel (Guild_ID guild) play w \<and>
      GuildID play = Guild_ID guild) \<and>
   (queues w g = None \<longrightarrow>
      enqueue fuel g play w =
        (case playSound fuel play None (w\<lparr>queues := (queues w)(g \<mapsto> \<lparr>cap = 6, pending = []\<rparr>)\<rparr>) of
           None \<Rightarrow> None
         | Some (Panics, w') \<Rightarrow> Some (Crashed, w')
         | Some (Returns e, w') \<Rightarrow> Some (Finished, w'))) \<and>
   (\<forall>ch. queues w g = Some ch \<and> cap ch = 6 \<and> length (pending ch) < 6 \<longrightarrow>
      enqueue fuel g play w =
        Some (Finished, w\<lparr>queues := (queues w)(g \<mapsto> ch\<lparr>pending := pending ch @ [play]\<rparr>)\<rparr>)) \<and>
   (\<forall>ch. queues w g = Some ch \<and> 6 \<le> length (pending ch) \<longrightarrow>
      enqueue fuel g play w = Some (Finished, w)) \<and>
   (\<forall>ch. queues w g = Some ch \<and> cap ch = 6 \<and> pending ch = [] \<and> length plays = 7 \<longrightarrow>
      enqueue_each fuel g plays w =
        Some (replicate 7 Finished, w\<lparr>queues := (queues w)(g \<mapsto> ch\<lparr>pending := take 6 plays\<rparr>)\<rparr>))"
proof (intro conjI allI impI)
  fix w1
  assume c: "createPlay raw raw' user guild coll sound w = (Returns (Some play), w1)"
  from createPlay_world [OF c] c
  show "enqueuePlay fuel raw raw' user guild coll sound w = enqueue fuel (Guild_ID guild) play w"
    by (simp add: enqueuePlay_def)
  from c show "GuildID play = Guild_ID guild"
    by (rule createPlay_GuildID)
next
  assume "queues w g = None"
  then show "enqueue fuel g play w =
        (case playSound fuel play None (w\<lparr>queues := (queues w)(g \<mapsto> \<lparr>cap = 6, pending = []\<rparr>)\<rparr>) of
           None \<Rightarrow> None
         | Some (Panics, w') \<Rightarrow> Some (Crashed, w')
         | Some (Returns e, w') \<Rightarrow> Some (Finished, w'))"
    by (simp add: enqueue_absent MAX_QUEUE_SIZE_def)
next
  fix ch
  assume "queues w g = Some ch \<and> cap ch = 6 \<and> length (pending ch) < 6"
  then show "enqueue fuel g play w =
        Some (Finished, w\<lparr>queues := (queues w)(g \<mapsto> ch\<lparr>pending := pending ch @ [play]\<rparr>)\<rparr>)"
    by (simp add: enqueue_room MAX_QUEUE_SIZE_def)
next
  fix ch
  assume "queues w g = Some ch \<and> 6 \<le> length (pending ch)"
  then show "enqueue fuel g play w = Some (Finished, w)"
    by (simp add: enqueue_full MAX_QUEUE_SIZE_def)
next
  fix ch
  assume a: "queues w g = Some ch \<and> cap ch = 6 \<and> pending ch = [] \<and> length plays = 7"
  then have "queues w g = Some ch" "cap ch = MAX_QUEUE_SIZE"
    by (simp_all add: MAX_QUEUE_SIZE_def)
  from enqueue_each_present [OF this, of fuel plays] a
  show "enqueue_each fuel g plays w =
        Some (replicate 7 Finished, w\<lparr>queues := (queues w)(g \<mapsto> ch\<lparr>pending := take 6 plays\<rparr>)\<rparr>)"
    by (simp add: MAX_QUEUE_SIZE_def)
qed

theorem enqueue_three_ways_witness:
  "queues run_active ''g1'' = Some \<lparr>cap = 6, pending = []\<rparr> \<and> length seven_plays = 7 \<and>
   enqueue_each 0 ''g1'' seven_plays run_active =
     Some (replicate 7 Finished,
       run_active\<lparr>queues := [''g1'' \<mapsto> \<lparr>cap = 6, pending = butlast seven_plays\<rparr>]\<rparr>) \<and>
   queues world0 ''g1'' = None \<and>
   enqueue (Suc 0) ''g1'' play_one world0 =
     Some (Finished, world0\<lparr>
       conns := (conns world0)(0 := \<lparr>vc_GuildID = ''g1'', vc_ChannelID = ''c1''\<rparr>),
       allocated := Suc 0,
       trace := [Log_Playing play_one, VoiceJoin ''g1'' ''c1'' 0, TrackStats play_one, Sleep 32,
         Speaking 0 True, Speaking 0 False, Sleep 250, Disconnect 0]\<rparr>)"
proof -
  have h1: "queues run_active ''g1'' = Some \<lparr>cap = 6, pending = []\<rparr>"
    by (simp add: run_active_def)
  have h2: "length seven_plays = 7"
    by (simp add: seven_plays_def)
  have h3: "queues world0 ''g1'' = None"
    by (simp add: world0_def)
  note T = enqueue_three_ways [of 0 0 "User ''u1''" "Guild ''g1'' []"
      "SoundCollection [] [] [] None 0" None run_active play_one 0 "''g1''" seven_plays]
  note U = enqueue_three_ways [of 0 0 "User ''u1''" "Guild ''g1'' []"
      "SoundCollection [] [] [] None 0" None world0 play_one "Suc 0" "''g1''" seven_plays]
  have a: "enqueue_each 0 ''g1'' seven_plays run_active =
     Some (replicate 7 Finished,
       run_active\<lparr>queues := (queues run_active)(''g1'' \<mapsto> \<lparr>cap = 6, pending = []\<rparr>\<lparr>pending := take 6 seven_plays\<rparr>)\<rparr>)"
    using T h1 h2 by simp
  have b: "enqueue (Suc 0) ''g1'' play_one world0 =
        (case playSound (Suc 0) play_one None
                (world0\<lparr>queues := (queues world0)(''g1'' \<mapsto> \<lparr>cap = 6, pending = []\<rparr>)\<rparr>) of
           None \<Rightarrow> None
         | Some (Panics, w') \<Rightarrow> Some (Crashed, w')
         | Some (Returns e, w') \<Rightarrow> Some (Finished, w'))"
    using U h3 by blast
  have c: "playSound (Suc 0) play_one None
                (world0\<lparr>queues := (queues world0)(''g1'' \<mapsto> \<lparr>cap = 6, pending = []\<rparr>)\<rparr>) =
     Some (Returns None, world0\<lparr>
       conns := (conns world0)(0 := \<lparr>vc_GuildID = ''g1'', vc_ChannelID = ''c1''\<rparr>),
       allocated := Suc 0,
       trace := [Log_Playing play_one, VoiceJoin ''g1'' ''c1'' 0, TrackStats play_one, Sleep 32,
         Speaking 0 True, Speaking 0 False, Sleep 250, Disconnect 0]\<rparr>)"
    by (simp add: start_play_def ChannelVoiceJoin_def emit_def chained_def next_or_idle_def
        idle_def delete_queue_def vc_Disconnect_def Sound_Play_def world0_def play_one_def
        airhorn_default_def createSound_def Let_def)
  from a b c h1 h2 h3 show ?thesis
    by (simp add: run_active_def seven_plays_def)
qed

text \<open>
  C2 (defect in the code). After a play whose chain and queue are done, the call of
  \<^verbatim>\<open>playSound\<close> sleeps, deletes the guild's entry and disconnects. A chained play is
  played by a call of \<^verbatim>\<open>playSound\<close> of its own (line 588), which does all of this before
  it returns; the call of the first play then goes on at line 591, finds no entry, and
  sleeps, deletes and disconnects a second time, now with the \<^verbatim>\<open>PartDelay\<close> of the first
  play's sound and on the connection already released. Here: a submission to a chained
  collection with no run active, and the same run with a follow-up sound whose
  \<^verbatim>\<open>PartDelay\<close> is 0.
\<close>

theorem chained_run_idles_twice:
  "createPlay 0 0 (User ''u1'') guild_one khaled_loaded None world0 =
     (Returns (Some chained_play), world0) \<and>
   enqueuePlay (Suc (Suc 0)) 0 0 (User ''u1'') guild_one khaled_loaded None world0 =
     Some (Finished, world0\<lparr>
       conns := (conns world0)(0 := \<lparr>vc_GuildID = ''g1'', vc_ChannelID = ''c1''\<rparr>),
       allocated := Suc 0,
       trace := [Log_Playing chained_play, VoiceJoin ''g1'' ''c1'' 0, TrackStats chained_play,
         Sleep 32, Speaking 0 True, OpusSend 0 [0x01], Speaking 0 False,
         Log_Playing follow_up, TrackStats follow_up, Sleep 32,
         Speaking 0 True, OpusSend 0 [0x02], Speaking 0 False,
         Sleep 250, Disconnect 0, Sleep 250, Disconnect 0]\<rparr>) \<and>
   PartDelay clip_one = 250 \<and> PartDelay clip_short = 0 \<and>
   enqueue (Suc (Suc 0)) ''g1'' chained_short world0 =
     Some (Finished, world0\<lparr>
       conns := (conns world0)(0 := \<lparr>vc_GuildID = ''g1'', vc_ChannelID = ''c1''\<rparr>),
       allocated := Suc 0,
       trace := [Log_Playing chained_short, VoiceJoin ''g1'' ''c1'' 0, TrackStats chained_short,
         Sleep 32, Speaking 0 True, OpusSend 0 [0x01], Speaking 0 False,
         Log_Playing short_follow, TrackStats short_follow, Sleep 32,
         Speaking 0 True, OpusSend 0 [0x03], Speaking 0 False,
         Sleep 0, Disconnect 0, Sleep 250, Disconnect 0]\<rparr>)"
proof -
  have c: "createPlay 0 0 (User ''u1'') guild_one khaled_loaded None world0 =
     (Returns (Some chained_play), world0)"
    by (simp add: createPlay_def getCurrentVoiceChannel_def State_Channel_def Random_def
        randomRange_def rand_Intn_def chain_example_defs example_defs)
  have g: "Guild_ID guild_one = ''g1''"
    by (simp add: guild_one_def)
  have r: "enqueue (Suc (Suc 0)) ''g1'' chained_play world0 =
     Some (Finished, world0\<lparr>
       conns := (conns world0)(0 := \<lparr>vc_GuildID = ''g1'', vc_ChannelID = ''c1''\<rparr>),
       allocated := Suc 0,
       trace := [Log_Playing chained_play, VoiceJoin ''g1'' ''c1'' 0, TrackStats chained_play,
         Sleep 32, Speaking 0 True, OpusSend 0 [0x01], Speaking 0 False,
         Log_Playing follow_up, TrackStats follow_up, Sleep 32,
         Speaking 0 True, OpusSend 0 [0x02], Speaking 0 False,
         Sleep 250, Disconnect 0, Sleep 250, Disconnect 0]\<rparr>)"
    by (simp add: enqueue_def MAX_QUEUE_SIZE_def run_defs chain_example_defs example_defs)
  have s: "enqueue (Suc (Suc 0)) ''g1'' chained_short world0 =
     Some (Finished, world0\<lparr>
       conns := (conns world0)(0 := \<lparr>vc_GuildID = ''g1'', vc_ChannelID = ''c1''\<rparr>),
       allocated := Suc 0,
       trace := [Log_Playing chained_short, VoiceJoin ''g1'' ''c1'' 0, TrackStats chained_short,
         Sleep 32, Speaking 0 True, OpusSend 0 [0x01], Speaking 0 False,
         Log_Playing short_follow, TrackStats short_follow, Sleep 32,
         Speaking 0 True, OpusSend 0 [0x03], Speaking 0 False,
         Sleep 0, Disconnect 0, Sleep 250, Disconnect 0]\<rparr>)"
    by (simp add: enqueue_def MAX_QUEUE_SIZE_def run_defs chain_example_defs example_defs)
  have d: "PartDelay clip_one = 250" "PartDelay clip_short = 0"
    by (simp_all add: clip_one_def clip_short_def)
  have e: "enqueuePlay (Suc (Suc 0)) 0 0 (User ''u1'') guild_one khaled_loaded None world0 =
      enqueue (Suc (Suc 0)) ''g1'' chained_play world0"
    by (simp add: enqueuePlay_def c g)
  from c r d s show ?thesis
    unfolding e by (intro conjI)
qed

text \<open>
  C3 (corrected). Goroutines that each hold a play of \<^verbatim>\<open>createPlay\<close> and start at line 507
  with an empty map, run in any order of steps: as long as none has panicked, every guild
  with an entry in the map has a goroutine in a run for it (or about to call
  \<^verbatim>\<open>playSound\<close>) that has yet to delete the entry. A goroutine that finds the guild's
  entry goes to the send and ends; one that finds none makes the entry and calls
  \<^verbatim>\<open>playSound\<close> without a connection. A run receives the next play when it finds the queue
  non-empty and goes to its sleep, delete and disconnect only when it finds it empty.
\<close>

theorem entries_have_runs:
  "((\<forall>t \<in> set ts. \<exists>play. t = At_exists play \<and> in_guild (GuildID play) play) \<and>
    (\<forall>g. queues w0 g = None) \<longrightarrow>
      crashed (exec schedule \<lparr>shared = w0, tasks = ts, crashed = False\<rparr>) \<or>
      (\<forall>g. queues (shared (exec schedule \<lparr>shared = w0, tasks = ts, crashed = False\<rparr>)) g \<noteq> None \<longrightarrow>
         (\<exists>t \<in> set (tasks (exec schedule \<lparr>shared = w0, tasks = ts, crashed = False\<rparr>)).
            owns g t))) \<and>
   (\<forall>w1. createPlay raw raw' user guild coll given w = (Returns (Some play), w1) \<longrightarrow>
      in_guild (GuildID play) play) \<and>
   (queues w (GuildID play) \<noteq> None \<longrightarrow>
      act (At_exists play) w = (Returns (At_send play), w) \<and>
      (fst (act (At_send play) w) = Returns Ended \<or> fst (act (At_send play) w) = Returns Stuck)) \<and>
   (queues w (GuildID play) = None \<longrightarrow>
      act (At_exists play) w = (Returns (At_make play), w) \<and>
      act (At_make play) w =
        (Returns (At_call play None []),
         w\<lparr>queues := (queues w)(GuildID play \<mapsto> \<lparr>cap = 6, pending = []\<rparr>)\<rparr>)) \<and>
   (\<forall>ch queued rest. queues w (GuildID play) = Some ch \<and> pending ch = queued # rest \<longrightarrow>
      act (At_queue play sound v callers) w =
        (Returns (At_call queued (Some v) ((play, sound, v, In_queue) # callers)),
         w\<lparr>queues := (queues w)(GuildID play \<mapsto> ch\<lparr>pending := rest\<rparr>)\<rparr>)) \<and>
   (queues w (GuildID play) = None \<or>
      (\<exists>ch. queues w (GuildID play) = Some ch \<and> pending ch = []) \<longrightarrow>
      act (At_queue play sound v callers) w = (Returns (At_sleep play sound v callers), w))"
proof (intro conjI allI impI)
  let ?sys = "\<lparr>shared = w0, tasks = ts, crashed = False\<rparr>"
  assume a: "(\<forall>t \<in> set ts. \<exists>play. t = At_exists play \<and> in_guild (GuildID play) play) \<and>
    (\<forall>g. queues w0 g = None)"
  then have "coherent ?sys"
    by (auto simp: coherent_def queue_in_guild_def)
  moreover have "entries_owned ?sys"
    using a by (simp add: entries_owned_def)
  ultimately have "crashed (exec schedule ?sys) \<or> entries_owned (exec schedule ?sys)"
    using exec_keeps [of ?sys schedule] by blast
  then show "crashed (exec schedule ?sys) \<or>
      (\<forall>g. queues (shared (exec schedule ?sys)) g \<noteq> None \<longrightarrow>
         (\<exists>t \<in> set (tasks (exec schedule ?sys)). owns g t))"
    by (simp add: entries_owned_def)
next
  fix w1
  assume "createPlay raw raw' user guild coll given w = (Returns (Some play), w1)"
  then show "in_guild (GuildID play) play"
    by (rule createPlay_in_guild)
next
  assume "queues w (GuildID play) \<noteq> None"
  then show "act (At_exists play) w = (Returns (At_send play), w)"
    and "fst (act (At_send play) w) = Returns Ended \<or> fst (act (At_send play) w) = Returns Stuck"
    by (auto split: option.splits)
next
  assume "queues w (GuildID play) = None"
  then show "act (At_exists play) w = (Returns (At_make play), w)"
    and "act (At_make play) w =
        (Returns (At_call play None []),
         w\<lparr>queues := (queues w)(GuildID play \<mapsto> \<lparr>cap = 6, pending = []\<rparr>)\<rparr>)"
    by (simp_all add: MAX_QUEUE_SIZE_def)
next
  fix ch queued rest
  assume "queues w (GuildID play) = Some ch \<and> pending ch = queued # rest"
  then show "act (At_queue play sound v callers) w =
        (Returns (At_call queued (Some v) ((play, sound, v, In_queue) # callers)),
         w\<lparr>queues := (queues w)(GuildID play \<mapsto> ch\<lparr>pending := rest\<rparr>)\<rparr>)"
    by simp
next
  assume "queues w (GuildID play) = None \<or>
      (\<exists>ch. queues w (GuildID play) = Some ch \<and> pending ch = [])"
  then show "act (At_queue play sound v callers) w = (Returns (At_sleep play sound v callers), w)"
    by auto
qed

theorem entries_have_runs_witness:
  "in_guild (GuildID play_one) play_one \<and> in_guild (GuildID play_two) play_two \<and>
   (\<forall>g. queues world0 g = None) \<and>
   \<not> crashed (exec [0, 0, 0, 1] two_submitters) \<and>
   queues (shared (exec [0, 0, 0, 1] two_submitters)) ''g1'' \<noteq> None \<and>
   (\<exists>t \<in> set (tasks (exec [0, 0, 0, 1] two_submitters)). owns ''g1'' t) \<and>
   tasks (exec [0, 0, 0, 1] two_submitters) =
     [At_next play_one airhorn_default 0 [], At_send play_two]"
proof -
  have h1: "\<forall>t \<in> set [At_exists play_one, At_exists play_two].
      \<exists>play. t = At_exists play \<and> in_guild (GuildID play) play"
    by (simp add: play_one_def play_two_def)
  have h2: "\<forall>g. queues world0 g = None"
    by (simp add: world0_def)
  have e: "exec [0, 0, 0, 1] two_submitters =
      \<lparr>shared = first_played\<lparr>queues := [''g1'' \<mapsto> \<lparr>cap = 6, pending = []\<rparr>]\<rparr>,
       tasks = [At_next play_one airhorn_default 0 [], At_send play_two], crashed = False\<rparr>"
    by (simp add: two_submitters_def step_def run_defs example_defs MAX_QUEUE_SIZE_def)
  have nc: "\<not> crashed (exec [0, 0, 0, 1] two_submitters)"
    and q: "queues (shared (exec [0, 0, 0, 1] two_submitters)) ''g1'' \<noteq> None"
    and ts: "tasks (exec [0, 0, 0, 1] two_submitters) =
     [At_next play_one airhorn_default 0 [], At_send play_two]"
    unfolding e by simp_all
  from entries_have_runs [THEN conjunct1, rule_format, OF conjI [OF h1 h2],
      of "[0, 0, 0, 1]"] nc q
  have "\<exists>t \<in> set (tasks (exec [0, 0, 0, 1] two_submitters)). owns ''g1'' t"
    by (simp add: two_submitters_def)
  moreover have "in_guild (GuildID play_one) play_one" "in_guild (GuildID play_two) play_two"
    by (simp_all add: play_one_def play_two_def)
  ultimately show ?thesis
    using h2 nc q ts by (intro conjI)
qed

theorem single_flight_counterexample:
  "tasks (exec [0, 1, 0, 1, 0, 1] two_submitters) =
     [At_next play_one airhorn_default 0 [], At_next play_two airhorn_default 0 []] \<and>
   runs_in_flight ''g1'' (exec [0, 1, 0, 1, 0, 1] two_submitters) = 2 \<and>
   \<not> runs_in_flight ''g1'' (exec [0, 1, 0, 1, 0, 1] two_submitters) \<le> 1 \<and>
   \<not> crashed (exec [0, 1, 0, 1, 0, 1] two_submitters) \<and>
   trace (shared (exec [0, 1, 0, 1, 0, 1] two_submitters)) =
     [Log_Playing play_one, VoiceJoin ''g1'' ''c1'' 0, TrackStats play_one, Sleep 32,
      Speaking 0 True, Speaking 0 False,
      Log_Playing play_two, VoiceJoin ''g1'' ''c1'' 0, TrackStats play_two, Sleep 32,
      Speaking 0 True, Speaking 0 False] \<and>
   queues (shared (exec [0, 1, 0, 1, 0, 1, 0, 0, 0, 0] two_submitters)) ''g1'' = None \<and>
   in_flight ''g1'' (tasks (exec [0, 1, 0, 1, 0, 1, 0, 0, 0, 0] two_submitters) ! 1)"
  by (simp add: two_submitters_def step_def runs_in_flight_def run_defs example_defs
      MAX_QUEUE_SIZE_def)

text \<open>
  C4. A submission to a collection with a chain target \<open>X\<close>, by a user whose voice channel
  \<^verbatim>\<open>createPlay\<close> finds, the collections being loaded: \<^verbatim>\<open>createPlay\<close> returns a play with
  exactly one follow-up, which has the same guild, channel, user and forced flag and the
  sound \<^verbatim>\<open>X.Random()\<close> returned; the flag is true exactly when a sound was passed in. In
  every run of the play that has a connection (one passed in, or a join that succeeds),
  the first sound is played, then the follow-up's on the same connection, with no join
  and no change of channel between them, and the guild's queue, untouched until then, is
  looked at only afterwards.
\<close>

theorem chained_pair:
  assumes "getCurrentVoiceChannel w user guild = Some channel"
    and "ChainWith coll = Some X"
    and "loaded X"
    and "given \<noteq> None \<or> loaded coll"
  shows "\<exists>play nx s s'.
     createPlay raw raw' user guild coll given w = (Returns (Some play), w) \<and>
     Next play = Some nx \<and> Next nx = None \<and>
     GuildID play = Guild_ID guild \<and> ChannelID play = Channel_ID channel \<and>
     UserID play = User_ID user \<and>
     GuildID nx = GuildID play \<and> ChannelID nx = ChannelID play \<and> UserID nx = UserID play \<and>
     Forced nx = Forced play \<and> Forced play = (given \<noteq> None) \<and>
     Sound play = Some s \<and>
     (case given of Some g \<Rightarrow> s = g | None \<Rightarrow> Random raw coll = Returns (Some s)) \<and>
     Sound nx = Some s' \<and> Random raw' X = Returns (Some s') \<and>
     (\<forall>vc w0 n. vc \<noteq> None \<or> voice_up w0 (GuildID play) (ChannelID play) \<longrightarrow>
        (\<exists>v pre w1 w2.
           start_play play vc w0 = (Inr (v, s), w1) \<and>
           trace w1 = trace w0 @ pre @
             [Speaking v True] @ map (OpusSend v) (buffer s) @ [Speaking v False] \<and>
           start_play nx (Some v) w1 = (Inr (v, s'), w2) \<and>
           trace w2 = trace w1 @ [Log_Playing nx, TrackStats nx, Sleep 32, Speaking v True] @
             map (OpusSend v) (buffer s') @ [Speaking v False] \<and>
           queues w2 = queues w0 \<and>
           playSound (Suc (Suc n)) play vc w0 =
             (case chained (playSound n) nx v w2 of
                None \<Rightarrow> None
              | Some (Panics, w3) \<Rightarrow> Some (Panics, w3)
              | Some (Returns e, w3) \<Rightarrow>
                  (case next_or_idle (playSound n) nx s' v w3 of
                     None \<Rightarrow> None
                   | Some (Panics, w4) \<Rightarrow> Some (Panics, w4)
                   | Some (Returns e', w4) \<Rightarrow>
                       next_or_idle (playSound (Suc n)) play s v w4))))"
proof -
  from Random_loaded [OF assms(3), of raw']
  obtain s' where rx: "Random raw' X = Returns (Some s')" by blast
  obtain s where rs: "case given of Some g \<Rightarrow> s = g | None \<Rightarrow> Random raw coll = Returns (Some s)"
  proof (cases given)
    case None
    with assms(4) Random_loaded [of coll raw] that show ?thesis by auto
  next
    case (Some g)
    with that show ?thesis by simp
  qed
  define nx where "nx = Play (Guild_ID guild) (Channel_ID channel) (User_ID user) (Some s') None
      (given \<noteq> None)"
  define play where "play = Play (Guild_ID guild) (Channel_ID channel) (User_ID user) (Some s)
      (Some nx) (given \<noteq> None)"
  have c: "createPlay raw raw' user guild coll given w = (Returns (Some play), w)"
    using assms(1,2) rx rs by (cases given) (simp_all add: createPlay_def play_def nx_def)
  have run: "\<exists>v pre w1 w2.
           start_play play vc w0 = (Inr (v, s), w1) \<and>
           trace w1 = trace w0 @ pre @
             [Speaking v True] @ map (OpusSend v) (buffer s) @ [Speaking v False] \<and>
           start_play nx (Some v) w1 = (Inr (v, s'), w2) \<and>
           trace w2 = trace w1 @ [Log_Playing nx, TrackStats nx, Sleep 32, Speaking v True] @
             map (OpusSend v) (buffer s') @ [Speaking v False] \<and>
           queues w2 = queues w0 \<and>
           playSound (Suc (Suc n)) play vc w0 =
             (case chained (playSound n) nx v w2 of
                None \<Rightarrow> None
              | Some (Panics, w3) \<Rightarrow> Some (Panics, w3)
              | Some (Returns e, w3) \<Rightarrow>
                  (case next_or_idle (playSound n) nx s' v w3 of
                     None \<Rightarrow> None
                   | Some (Panics, w4) \<Rightarrow> Some (Panics, w4)
                   | Some (Returns e', w4) \<Rightarrow>
                       next_or_idle (playSound (Suc n)) play s v w4))"
    if a: "vc \<noteq> None \<or> voice_up w0 (GuildID play) (ChannelID play)" for vc w0 n
  proof -
    have "Sound play = Some s" by (simp add: play_def)
    from start_play_acquired [OF this a]
    obtain v w1 where sp: "start_play play vc w0 = (Inr (v, s), w1)" by blast
    let ?w2 = "Sound_Play s' v (emit [Log_Playing nx, TrackStats nx, Sleep 32] w1)"
    from start_play_Inr [OF sp] obtain pre where
      ch: "vc_ChannelID (conns w1 v) = ChannelID play" and q1: "queues w1 = queues w0"
      and t1: "trace w1 =
          trace w0 @ pre @ [Speaking v True] @ map (OpusSend v) (buffer s) @ [Speaking v False]"
      by blast
    have f: "start_play nx (Some v) w1 = (Inr (v, s'), ?w2)"
      using ch by (intro start_play_follow) (simp_all add: play_def nx_def)
    have t2: "trace ?w2 = trace w1 @ [Log_Playing nx, TrackStats nx, Sleep 32, Speaking v True] @
          map (OpusSend v) (buffer s') @ [Speaking v False]"
      by simp
    have q2: "queues ?w2 = queues w0"
      using q1 by simp
    have nx: "Next play = Some nx"
      by (simp add: play_def)
    have "playSound (Suc (Suc n)) play vc w0 =
          (case chained (playSound n) nx v ?w2 of
             None \<Rightarrow> None
           | Some (Panics, w3) \<Rightarrow> Some (Panics, w3)
           | Some (Returns e, w3) \<Rightarrow>
               (case next_or_idle (playSound n) nx s' v w3 of
                  None \<Rightarrow> None
                | Some (Panics, w4) \<Rightarrow> Some (Panics, w4)
                | Some (Returns e', w4) \<Rightarrow> next_or_idle (playSound (Suc n)) play s v w4))"
      by (simp add: sp nx f chained_def [of _ play] split: option.splits outcome.splits prod.splits)
    with sp t1 f t2 q2 show ?thesis by blast
  qed
  have fields: "Next play = Some nx" "Next nx = None" "GuildID play = Guild_ID guild"
    "ChannelID play = Channel_ID channel" "UserID play = User_ID user"
    "GuildID nx = GuildID play" "ChannelID nx = ChannelID play" "UserID nx = UserID play"
    "Forced nx = Forced play" "Forced play = (given \<noteq> None)" "Sound play = Some s"
    "Sound nx = Some s'"
    by (simp_all add: play_def nx_def)
  show ?thesis
    apply (rule exI [of _ play], rule exI [of _ nx], rule exI [of _ s], rule exI [of _ s'])
    apply (intro conjI allI impI)
    apply (rule c fields rs rx run | assumption)+
    done
qed

theorem chained_pair_witness:
  "getCurrentVoiceChannel queued_one (User ''u1'') guild_one = Some (Channel ''c1'') \<and>
   ChainWith khaled_loaded = Some airhorn_loaded \<and> loaded airhorn_loaded \<and>
   loaded khaled_loaded \<and>
   createPlay 0 0 (User ''u1'') guild_one khaled_loaded None queued_one =
     (Returns (Some chained_play), queued_one) \<and>
   Random 0 airhorn_loaded = Returns (Some clip_horn) \<and>
   start_play chained_play None queued_one = (Inr (0, clip_one), one_played) \<and>
   start_play follow_up (Some 0) one_played =
     (Inr (0, clip_horn),
      one_played\<lparr>trace := trace one_played @
        [Log_Playing follow_up, TrackStats follow_up, Sleep 32,
         Speaking 0 True, OpusSend 0 [0x02], Speaking 0 False]\<rparr>) \<and>
   (\<exists>w'. playSound (Suc (Suc (Suc 0))) chained_play None queued_one = Some (Returns None, w') \<and>
      trace w' = [Log_Playing chained_play, VoiceJoin ''g1'' ''c1'' 0, TrackStats chained_play,
        Sleep 32, Speaking 0 True, OpusSend 0 [0x01], Speaking 0 False,
        Log_Playing follow_up, TrackStats follow_up, Sleep 32,
        Speaking 0 True, OpusSend 0 [0x02], Speaking 0 False,
        Log_Playing play_two, TrackStats play_two, Sleep 32, Speaking 0 True, Speaking 0 False,
        Sleep 250, Disconnect 0, Sleep 250, Disconnect 0])"
proof -
  have h1: "getCurrentVoiceChannel queued_one (User ''u1'') guild_one = Some (Channel ''c1'')"
    by (simp add: getCurrentVoiceChannel_def State_Channel_def guild_one_def example_defs)
  have h2: "ChainWith khaled_loaded = Some airhorn_loaded"
    by (simp add: khaled_loaded_def)
  have h3: "loaded airhorn_loaded"
    by (simp add: loaded_def airhorn_loaded_def clip_horn_def)
  have h4: "loaded khaled_loaded"
    by (simp add: loaded_def khaled_loaded_def clip_one_def)
  have c: "createPlay 0 0 (User ''u1'') guild_one khaled_loaded None queued_one =
     (Returns (Some chained_play), queued_one)"
    by (simp add: createPlay_def getCurrentVoiceChannel_def State_Channel_def Random_def
        randomRange_def rand_Intn_def chain_example_defs example_defs)
  have r: "Random 0 airhorn_loaded = Returns (Some clip_horn)"
    by (simp add: Random_def randomRange_def rand_Intn_def airhorn_loaded_def clip_horn_def)
  have up: "voice_up queued_one (GuildID chained_play) (ChannelID chained_play)"
    by (simp add: example_defs)
  from chained_pair [where given = "None :: Sound option" and raw = 0 and raw' = 0,
      OF h1 h2 h3 disjI2 [OF h4]]
  obtain play nx s s' where
    c': "createPlay 0 0 (User ''u1'') guild_one khaled_loaded None queued_one =
      (Returns (Some play), queued_one)"
    and nx: "Next play = Some nx" and s: "Sound play = Some s" and s': "Sound nx = Some s'"
    and run: "\<forall>vc w0 n. vc \<noteq> None \<or> voice_up w0 (GuildID play) (ChannelID play) \<longrightarrow>
        (\<exists>v pre w1 w2.
           start_play play vc w0 = (Inr (v, s), w1) \<and>
           trace w1 = trace w0 @ pre @
             [Speaking v True] @ map (OpusSend v) (buffer s) @ [Speaking v False] \<and>
           start_play nx (Some v) w1 = (Inr (v, s'), w2) \<and>
           trace w2 = trace w1 @ [Log_Playing nx, TrackStats nx, Sleep 32, Speaking v True] @
             map (OpusSend v) (buffer s') @ [Speaking v False] \<and>
           queues w2 = queues w0 \<and>
           playSound (Suc (Suc n)) play vc w0 =
             (case chained (playSound n) nx v w2 of
                None \<Rightarrow> None
              | Some (Panics, w3) \<Rightarrow> Some (Panics, w3)
              | Some (Returns e, w3) \<Rightarrow>
                  (case next_or_idle (playSound n) nx s' v w3 of
                     None \<Rightarrow> None
                   | Some (Panics, w4) \<Rightarrow> Some (Panics, w4)
                   | Some (Returns e', w4) \<Rightarrow>
                       next_or_idle (playSound (Suc n)) play s v w4)))"
    by blast
  from c c' have p: "play = chained_play" by simp
  with nx s have n0: "nx = follow_up" "s = clip_one"
    by (simp_all add: chained_play_def)
  with s' have n: "nx = follow_up" "s = clip_one" "s' = clip_horn"
    by (simp_all add: follow_up_def)
  from run [rule_format, of None queued_one "Suc 0"] up
  obtain v w1 w2 where sp: "start_play chained_play None queued_one = (Inr (v, clip_one), w1)"
    and f: "start_play follow_up (Some v) w1 = (Inr (v, clip_horn), w2)"
    and t2: "trace w2 = trace w1 @
      [Log_Playing follow_up, TrackStats follow_up, Sleep 32, Speaking v True] @
        map (OpusSend v) (buffer clip_horn) @ [Speaking v False]"
    and full: "playSound (Suc (Suc (Suc 0))) chained_play None queued_one =
          (case chained (playSound (Suc 0)) follow_up v w2 of
             None \<Rightarrow> None
           | Some (Panics, w3) \<Rightarrow> Some (Panics, w3)
           | Some (Returns e, w3) \<Rightarrow>
               (case next_or_idle (playSound (Suc 0)) follow_up clip_horn v w3 of
                  None \<Rightarrow> None
                | Some (Panics, w4) \<Rightarrow> Some (Panics, w4)
                | Some (Returns e', w4) \<Rightarrow>
                    next_or_idle (playSound (Suc (Suc 0))) chained_play clip_one v w4))"
    unfolding p n by blast
  have sp0: "start_play chained_play None queued_one = (Inr (0, clip_one), one_played)"
    by (simp add: run_defs chain_example_defs example_defs)
  with sp have v: "v = 0" and w1: "w1 = one_played" by simp_all
  have w2: "w2 = one_played\<lparr>trace := trace one_played @
        [Log_Playing follow_up, TrackStats follow_up, Sleep 32,
         Speaking 0 True, OpusSend 0 [0x02], Speaking 0 False]\<rparr>"
    using f unfolding v w1 by (simp add: run_defs chain_example_defs example_defs)
  have f0: "start_play follow_up (Some 0) one_played =
     (Inr (0, clip_horn),
      one_played\<lparr>trace := trace one_played @
        [Log_Playing follow_up, TrackStats follow_up, Sleep 32,
         Speaking 0 True, OpusSend 0 [0x02], Speaking 0 False]\<rparr>)"
    using f unfolding v w1 w2 .
  have "\<exists>w'. playSound (Suc (Suc (Suc 0))) chained_play None queued_one = Some (Returns None, w') \<and>
      trace w' = [Log_Playing chained_play, VoiceJoin ''g1'' ''c1'' 0, TrackStats chained_play,
        Sleep 32, Speaking 0 True, OpusSend 0 [0x01], Speaking 0 False,
        Log_Playing follow_up, TrackStats follow_up, Sleep 32,
        Speaking 0 True, OpusSend 0 [0x02], Speaking 0 False,
        Log_Playing play_two, TrackStats play_two, Sleep 32, Speaking 0 True, Speaking 0 False,
        Sleep 250, Disconnect 0, Sleep 250, Disconnect 0]"
    unfolding full v w2
    by (simp add: run_defs chain_example_defs example_defs)
  with h1 h2 h3 h4 c r sp0 f0 show ?thesis by (intro conjI)
qed

subsection \<open>Selecting a clip\<close>




subsection \<open>Loading a clip\<close>

text \<open>
  C6 (corrected). For every clip resource made of frames, each a 16-bit little-endian
  length below 32768 (the prefix is read as a signed \<^verbatim>\<open>int16\<close>) followed by that many
  payload bytes, \<^verbatim>\<open>Load\<close> reads the frames up to the clean end of the resource, returns
  nil and appends each frame in file order to the clip's buffer; the byte stream
  \<open>[0x02,0x00,0xAA,0xBB,0x00,0x00]\<close> decodes to the two frames \<open>[0xAA,0xBB]\<close> and \<open>[]\<close>.
\<close>

theorem Load_decodes_frames:
  assumes "fs (dca_path c s) = Some \<lparr>unread = resource_bytes frs, broken = False\<rparr>"
    and "\<forall>fr \<in> set frs. length fr < 32768"
  shows "Sound_Load fs c s = (Returns None, s\<lparr>buffer := buffer s @ frs\<rparr>)"
proof -
  have "Load_loop \<lparr>unread = resource_bytes frs @ [], broken = False\<rparr> (buffer s) =
      Load_loop \<lparr>unread = [], broken = False\<rparr> (buffer s @ frs)"
    using assms(2) by (rule Load_loop_frames)
  then have "Load_loop \<lparr>unread = resource_bytes frs, broken = False\<rparr> (buffer s) =
      (Returns None, buffer s @ frs)"
    by (simp add: Load_loop_end)
  then show ?thesis
    using assms(1) by (simp add: Sound_Load_def)
qed

theorem Load_decodes_frames_witness:
  "resource_bytes [[0xAA, 0xBB], []] = [0x02, 0x00, 0xAA, 0xBB, 0x00, 0x00] \<and>
   Sound_Load (one_file [0x02, 0x00, 0xAA, 0xBB, 0x00, 0x00]) airhorn_literal
       (createSound ''default'' 1000 250) =
     (Returns None, (createSound ''default'' 1000 250)\<lparr>buffer := [[0xAA, 0xBB], []]\<rparr>)"
proof -
  have enc: "resource_bytes [[0xAA, 0xBB], []] = [0x02, 0x00, 0xAA, 0xBB, 0x00, 0x00]"
    by (simp add: resource_bytes_def frame_bytes_def le16_def)
  have h1: "one_file [0x02, 0x00, 0xAA, 0xBB, 0x00, 0x00]
        (dca_path airhorn_literal (createSound ''default'' 1000 250)) =
      Some \<lparr>unread = resource_bytes [[0xAA, 0xBB], []], broken = False\<rparr>"
    by (simp add: enc dca_path_default one_file_def)
  have h2: "\<forall>fr \<in> set [[0xAA, 0xBB], [] :: byte list]. length fr < 32768"
    by simp
  from Load_decodes_frames [of "one_file [0x02, 0x00, 0xAA, 0xBB, 0x00, 0x00]" airhorn_literal
      "createSound ''default'' 1000 250" "[[0xAA, 0xBB], []]", OF h1 h2] enc
  show ?thesis
    by (simp add: createSound_def)
qed

theorem Load_unsigned_length_counterexample:
  "resource_bytes [replicate 32768 0] = 0x00 # 0x80 # replicate 32768 0 \<and>
   Sound_Load (one_file (0x00 # 0x80 # replicate 32768 0)) airhorn_literal
       (createSound ''default'' 1000 250) =
     (Panics, createSound ''default'' 1000 250) \<and>
   Sound_Load (one_file (resource_bytes [replicate 32768 0])) airhorn_literal
       (createSound ''default'' 1000 250) \<noteq>
     (Returns None, (createSound ''default'' 1000 250)\<lparr>buffer := [replicate 32768 0]\<rparr>)"
proof -
  have enc: "resource_bytes [replicate 32768 0] = le16 32768 @ replicate 32768 0"
    by (simp add: resource_bytes_def frame_bytes_def)
  have le: "le16 32768 = [0x00, 0x80]"
    by (simp add: le16_def)
  have "Load_loop \<lparr>unread = le16 32768 @ replicate 32768 0, broken = False\<rparr> [] = (Panics, [])"
    by (rule Load_loop_negative) simp_all
  then have "Sound_Load (one_file (le16 32768 @ replicate 32768 0)) airhorn_literal
       (createSound ''default'' 1000 250) = (Panics, createSound ''default'' 1000 250)"
    by (simp add: Sound_Load_def dca_path_default one_file_def) (simp add: createSound_def)
  then show ?thesis
    by (simp add: enc le)
qed

text \<open>
  C7 (corrected). \<^verbatim>\<open>Load\<close> returns an error when the resource is missing, when a payload is
  cut short and when a read fails on the device. A length prefix cut short (one byte
  left) is taken for the end of the resource: \<^verbatim>\<open>Load\<close> returns nil. In every case the
  frames read before stay in the buffer. A sound whose buffer is empty is played without
  sending a frame.
\<close>

theorem Load_failures:
  "(fs (dca_path c s) = None \<longrightarrow> Sound_Load fs c s = (Returns (Some ErrNotExist), s)) \<and>
   (\<forall>frs n payload br.
      fs (dca_path c s) =
        Some \<lparr>unread = resource_bytes frs @ le16 n @ payload, broken = br\<rparr> \<and>
      (\<forall>fr \<in> set frs. length fr < 32768) \<and> n < 32768 \<and> length payload < n \<longrightarrow>
      Sound_Load fs c s =
        (Returns (Some (if br then ErrIO else if payload = [] then EOF else ErrUnexpectedEOF)),
         s\<lparr>buffer := buffer s @ frs\<rparr>)) \<and>
   (\<forall>frs b.
      fs (dca_path c s) = Some \<lparr>unread = resource_bytes frs @ [b], broken = False\<rparr> \<and>
      (\<forall>fr \<in> set frs. length fr < 32768) \<longrightarrow>
      Sound_Load fs c s = (Returns None, s\<lparr>buffer := buffer s @ frs\<rparr>)) \<and>
   (\<forall>frs rest.
      fs (dca_path c s) = Some \<lparr>unread = resource_bytes frs @ rest, broken = True\<rparr> \<and>
      (\<forall>fr \<in> set frs. length fr < 32768) \<and> length rest < 2 \<longrightarrow>
      Sound_Load fs c s = (Returns (Some ErrIO), s\<lparr>buffer := buffer s @ frs\<rparr>)) \<and>
   (buffer s = [] \<longrightarrow> trace (Sound_Play s v w) = trace w @ [Speaking v True, Speaking v False])"
proof (intro conjI allI impI)
  assume "fs (dca_path c s) = None"
  then show "Sound_Load fs c s = (Returns (Some ErrNotExist), s)"
    by (simp add: Sound_Load_def)
next
  fix frs n payload br
  assume a: "fs (dca_path c s) =
        Some \<lparr>unread = resource_bytes frs @ le16 n @ payload, broken = br\<rparr> \<and>
      (\<forall>fr \<in> set frs. length fr < 32768) \<and> n < 32768 \<and> length payload < n"
  then have "Load_loop \<lparr>unread = resource_bytes frs @ le16 n @ payload, broken = br\<rparr> (buffer s) =
      (Returns (Some (if br then ErrIO else if payload = [] then EOF else ErrUnexpectedEOF)),
       buffer s @ frs)"
    by (simp add: Load_loop_frames Load_loop_short_payload)
  with a show "Sound_Load fs c s =
        (Returns (Some (if br then ErrIO else if payload = [] then EOF else ErrUnexpectedEOF)),
         s\<lparr>buffer := buffer s @ frs\<rparr>)"
    by (simp add: Sound_Load_def)
next
  fix frs b
  assume a: "fs (dca_path c s) = Some \<lparr>unread = resource_bytes frs @ [b], broken = False\<rparr> \<and>
      (\<forall>fr \<in> set frs. length fr < 32768)"
  then have "Load_loop \<lparr>unread = resource_bytes frs @ [b], broken = False\<rparr> (buffer s) =
      (Returns None, buffer s @ frs)"
    by (simp add: Load_loop_frames Load_loop_one_byte)
  with a show "Sound_Load fs c s = (Returns None, s\<lparr>buffer := buffer s @ frs\<rparr>)"
    by (simp add: Sound_Load_def)
next
  fix frs rest
  assume a: "fs (dca_path c s) = Some \<lparr>unread = resource_bytes frs @ rest, broken = True\<rparr> \<and>
      (\<forall>fr \<in> set frs. length fr < 32768) \<and> length rest < 2"
  then have "Load_loop \<lparr>unread = resource_bytes frs @ rest, broken = True\<rparr> (buffer s) =
      (Returns (Some ErrIO), buffer s @ frs)"
    by (simp add: Load_loop_frames Load_loop_fault)
  with a show "Sound_Load fs c s = (Returns (Some ErrIO), s\<lparr>buffer := buffer s @ frs\<rparr>)"
    by (simp add: Sound_Load_def)
next
  assume "buffer s = []"
  then show "trace (Sound_Play s v w) = trace w @ [Speaking v True, Speaking v False]"
    by simp
qed

theorem Load_failures_witness:
  "Sound_Load Map.empty airhorn_literal airhorn_default = (Returns (Some ErrNotExist), airhorn_default) \<and>
   Sound_Load (one_file [0x01, 0x00, 0xAA, 0x02, 0x00, 0xBB]) airhorn_literal airhorn_default =
     (Returns (Some ErrUnexpectedEOF), airhorn_default\<lparr>buffer := [[0xAA]]\<rparr>) \<and>
   Sound_Load (one_file [0x01, 0x00, 0xAA, 0x02, 0x00]) airhorn_literal airhorn_default =
     (Returns (Some EOF), airhorn_default\<lparr>buffer := [[0xAA]]\<rparr>) \<and>
   Sound_Load (one_file [0x01, 0x00, 0xAA, 0x02]) airhorn_literal airhorn_default =
     (Returns None, airhorn_default\<lparr>buffer := [[0xAA]]\<rparr>) \<and>
   Sound_Load [''audio/airhorn_default.dca'' \<mapsto> \<lparr>unread = [0x01, 0x00, 0xAA], broken = True\<rparr>]
       airhorn_literal airhorn_default =
     (Returns (Some ErrIO), airhorn_default\<lparr>buffer := [[0xAA]]\<rparr>) \<and>
   Sound_Load [''audio/airhorn_default.dca'' \<mapsto>
         \<lparr>unread = [0x01, 0x00, 0xAA, 0x02, 0x00, 0xBB], broken = True\<rparr>]
       airhorn_literal airhorn_default =
     (Returns (Some ErrIO), airhorn_default\<lparr>buffer := [[0xAA]]\<rparr>) \<and>
   trace (Sound_Play airhorn_default 0 world0) = [Speaking 0 True, Speaking 0 False]"
proof -
  have p: "dca_path airhorn_literal airhorn_default = ''audio/airhorn_default.dca''"
    by (simp add: airhorn_default_def dca_path_default)
  have enc: "resource_bytes [[0xAA]] = [0x01, 0x00, 0xAA]" "le16 2 = [0x02, 0x00]"
    by (simp_all add: resource_bytes_def frame_bytes_def le16_def)
  have fr: "\<forall>fr \<in> set [[0xAA :: byte]]. length fr < 32768"
    by simp
  have b: "buffer airhorn_default = []"
    by (simp add: airhorn_default_def createSound_def)
  note T = Load_failures [of _ airhorn_literal airhorn_default]
  have 1: "Sound_Load Map.empty airhorn_literal airhorn_default =
      (Returns (Some ErrNotExist), airhorn_default)"
    using T [of Map.empty, THEN conjunct1] by simp
  have 2: "Sound_Load (one_file [0x01, 0x00, 0xAA, 0x02, 0x00, 0xBB]) airhorn_literal airhorn_default =
     (Returns (Some ErrUnexpectedEOF), airhorn_default\<lparr>buffer := [[0xAA]]\<rparr>)"
    using T [of "one_file [0x01, 0x00, 0xAA, 0x02, 0x00, 0xBB]", THEN conjunct2, THEN conjunct1,
        rule_format, of "[[0xAA]]" 2 "[0xBB]" False] fr
    by (simp add: p enc b one_file_def)
  have 3: "Sound_Load (one_file [0x01, 0x00, 0xAA, 0x02, 0x00]) airhorn_literal airhorn_default =
     (Returns (Some EOF), airhorn_default\<lparr>buffer := [[0xAA]]\<rparr>)"
    using T [of "one_file [0x01, 0x00, 0xAA, 0x02, 0x00]", THEN conjunct2, THEN conjunct1,
        rule_format, of "[[0xAA]]" 2 "[]" False] fr
    by (simp add: p enc b one_file_def)
  have 4: "Sound_Load (one_file [0x01, 0x00, 0xAA, 0x02]) airhorn_literal airhorn_default =
     (Returns None, airhorn_default\<lparr>buffer := [[0xAA]]\<rparr>)"
    using T [of "one_file [0x01, 0x00, 0xAA, 0x02]", THEN conjunct2, THEN conjunct2, THEN conjunct1,
        rule_format, of "[[0xAA]]" 2] fr
    by (simp add: p enc b one_file_def)
  have 5: "Sound_Load [''audio/airhorn_default.dca'' \<mapsto> \<lparr>unread = [0x01, 0x00, 0xAA], broken = True\<rparr>]
       airhorn_literal airhorn_default =
     (Returns (Some ErrIO), airhorn_default\<lparr>buffer := [[0xAA]]\<rparr>)"
    using T [of "[''audio/airhorn_default.dca'' \<mapsto> \<lparr>unread = [0x01, 0x00, 0xAA], broken = True\<rparr>]",
        THEN conjunct2, THEN conjunct2, THEN conjunct2, THEN conjunct1,
        rule_format, of "[[0xAA]]" "[]"] fr
    by (simp add: p enc b)
  have 6: "trace (Sound_Play airhorn_default 0 world0) = [Speaking 0 True, Speaking 0 False]"
    using T [of Map.empty 0 world0, THEN conjunct2, THEN conjunct2, THEN conjunct2, THEN conjunct2] b
    by (simp add: world0_def)
  have 7: "Sound_Load [''audio/airhorn_default.dca'' \<mapsto>
         \<lparr>unread = [0x01, 0x00, 0xAA, 0x02, 0x00, 0xBB], broken = True\<rparr>]
       airhorn_literal airhorn_default =
     (Returns (Some ErrIO), airhorn_default\<lparr>buffer := [[0xAA]]\<rparr>)"
    using T [of "[''audio/airhorn_default.dca'' \<mapsto>
          \<lparr>unread = [0x01, 0x00, 0xAA, 0x02, 0x00, 0xBB], broken = True\<rparr>]",
        THEN conjunct2, THEN conjunct1, rule_format, of "[[0xAA]]" 2 "[0xBB]" True] fr
    by (simp add: p enc b)
  from 1 2 3 4 5 7 6 show ?thesis by (intro conjI)
qed

theorem Load_failures_counterexample:
  "Sound_Load (one_file [0x01]) airhorn_literal airhorn_default = (Returns None, airhorn_default) \<and>
   Sound_Load (one_file [0x01, 0x00, 0xAA, 0x02, 0x00, 0xBB]) airhorn_literal airhorn_default =
     (Returns (Some ErrUnexpectedEOF), airhorn_default\<lparr>buffer := [[0xAA]]\<rparr>) \<and>
   buffer (snd (Sound_Load (one_file [0x01, 0x00, 0xAA, 0x02, 0x00, 0xBB]) airhorn_literal
     airhorn_default)) \<noteq> []"
proof -
  have p: "dca_path airhorn_literal airhorn_default = ''audio/airhorn_default.dca''"
    by (simp add: airhorn_default_def dca_path_default)
  have b: "buffer airhorn_default = []"
    by (simp add: airhorn_default_def createSound_def)
  have 1: "Load_loop \<lparr>unread = [0x01], broken = False\<rparr> [] = (Returns None, [])"
    by (rule Load_loop_one_byte)
  have "Load_loop \<lparr>unread = resource_bytes [[0xAA]] @ le16 2 @ [0xBB], broken = False\<rparr> [] =
      (Returns (Some ErrUnexpectedEOF), [[0xAA]])"
    by (simp add: Load_loop_frames Load_loop_short_payload)
  then have 2: "Load_loop \<lparr>unread = [0x01, 0x00, 0xAA, 0x02, 0x00, 0xBB], broken = False\<rparr> [] =
      (Returns (Some ErrUnexpectedEOF), [[0xAA]])"
    by (simp add: resource_bytes_def frame_bytes_def le16_def)
  from 1 2 show ?thesis
    by (simp add: Sound_Load_def p b one_file_def)
qed

subsection \<open>Failures of a run and of a selection\<close>

text \<open>
  C8. A run started without a connection whose join fails logs the failure, deletes the
  guild's queue entry with whatever waits in it and returns the error: one attempt to
  join and nothing after it. A play handed to the queue after that finds no entry, so it
  makes a new one and starts a run of its own.
\<close>

theorem join_failure_ends_run:
  assumes "\<not> voice_up w (GuildID play) (ChannelID play)"
  shows "\<exists>w'. playSound (Suc n) play None w = Some (Returns (Some ErrVoice), w') \<and>
      trace w' = trace w @ [Log_Playing play,
        VoiceJoinFailed (GuildID play) (ChannelID play), Log_Failed ErrVoice] \<and>
      queues w' = (queues w)(GuildID play := None) \<and>
      enqueue fuel (GuildID play) later w' =
        (case playSound fuel later None
                (w'\<lparr>queues := (queues w')(GuildID play \<mapsto> \<lparr>cap = MAX_QUEUE_SIZE, pending = []\<rparr>)\<rparr>) of
           None \<Rightarrow> None
         | Some (Panics, w'') \<Rightarrow> Some (Crashed, w'')
         | Some (Returns e, w'') \<Rightarrow> Some (Finished, w''))"
proof -
  let ?w' = "w\<lparr>queues := (queues w)(GuildID play := None),
         trace := trace w @ [Log_Playing play,
           VoiceJoinFailed (GuildID play) (ChannelID play), Log_Failed ErrVoice]\<rparr>"
  have "playSound (Suc n) play None w = Some (Returns (Some ErrVoice), ?w')"
    using assms by (rule playSound_join_fails)
  moreover have "queues ?w' (GuildID play) = None" by simp
  ultimately show ?thesis
    by (intro exI [of _ ?w']) (simp add: enqueue_absent)
qed

theorem join_failure_ends_run_witness:
  "\<not> voice_up voice_down (GuildID play_one) (ChannelID play_one) \<and>
   (\<exists>w'. playSound (Suc 0) play_one None voice_down = Some (Returns (Some ErrVoice), w') \<and>
      trace w' = [Log_Playing play_one, VoiceJoinFailed ''g1'' ''c1'', Log_Failed ErrVoice] \<and>
      queues w' ''g1'' = None)"
proof -
  have h: "\<not> voice_up voice_down (GuildID play_one) (ChannelID play_one)"
    by (simp add: voice_down_def)
  from join_failure_ends_run [OF h, of 0 0 play_one]
  obtain w' where "playSound (Suc 0) play_one None voice_down = Some (Returns (Some ErrVoice), w')"
    and "trace w' = trace voice_down @ [Log_Playing play_one,
        VoiceJoinFailed (GuildID play_one) (ChannelID play_one), Log_Failed ErrVoice]"
    and "queues w' = (queues voice_down)(GuildID play_one := None)"
    by blast
  then show ?thesis
    using h by (simp add: voice_down_def world0_def play_one_def)
qed

text \<open>
  C9 (corrected). For every collection whose \<open>soundRange\<close> is 0 (or negative), \<^verbatim>\<open>Random\<close>
  selects nothing and does not return: \<^verbatim>\<open>rand.Intn\<close> is called with a bound that is not
  positive and panics, before the walk over the clips starts.
\<close>

theorem Random_panics_without_range:
  "sint (soundRange sc) \<le> 0 \<Longrightarrow> Random raw sc = Panics"
  by (simp add: Random_def randomRange_def rand_Intn_def)

theorem Random_panics_without_range_witness:
  "sint (soundRange no_clips) \<le> 0 \<and> Random 3 no_clips = Panics"
proof -
  have h: "sint (soundRange no_clips) \<le> 0" by (simp add: no_clips_def)
  from Random_panics_without_range [OF h, of 3] h show ?thesis by simp
qed

theorem Random_zero_range_counterexample:
  "soundRange no_clips = 0 \<and> Random 0 no_clips \<noteq> Returns None \<and>
   SoundCollection_Load Map.empty zero_weights = Returns zero_weights \<and>
   soundRange zero_weights = 0 \<and> Random 0 zero_weights \<noteq> Returns None"
  by (simp add: no_clips_def zero_weights_def Random_def randomRange_def rand_Intn_def
      SoundCollection_Load_def Sound_Load_def createSound_def)

text \<open>
  C10 (corrected). \<^verbatim>\<open>Load\<close> leaves in \<open>soundRange\<close> the sum of the clips' weights as a
  64-bit integer adds them, which is also the last value of the running sum of \<^verbatim>\<open>Random\<close>.
  For every collection whose \<open>soundRange\<close> is positive and at most that sum, \<^verbatim>\<open>Random\<close>
  returns a clip of the collection, whatever the generator yields: the \<^verbatim>\<open>return nil\<close>
  after the loop is not reached.
\<close>

theorem Random_returns_clip:
  "(0 < sint (soundRange sc) \<and>
    sint (soundRange sc) \<le> sint (sum_list (map Weight (Sounds sc))) \<longrightarrow>
      (\<exists>sound. Random raw sc = Returns (Some sound) \<and> sound \<in> set (Sounds sc))) \<and>
   (\<forall>fs sc0. SoundCollection_Load fs sc0 = Returns sc \<and> soundRange sc0 = 0 \<longrightarrow>
      soundRange sc = sum_list (map Weight (Sounds sc)))"
proof (intro conjI allI impI)
  assume "0 < sint (soundRange sc) \<and>
    sint (soundRange sc) \<le> sint (sum_list (map Weight (Sounds sc)))"
  then have "loaded sc"
    by (simp add: loaded_def)
  then show "\<exists>sound. Random raw sc = Returns (Some sound) \<and> sound \<in> set (Sounds sc)"
    by (rule Random_loaded)
next
  fix fs sc0
  assume "SoundCollection_Load fs sc0 = Returns sc \<and> soundRange sc0 = 0"
  then show "soundRange sc = sum_list (map Weight (Sounds sc))"
    using SoundCollection_Load_soundRange [of fs sc0 sc] by simp
qed

theorem Random_returns_clip_witness:
  "SoundCollection_Load Map.empty scenario_literal = Returns scenario_loaded \<and>
   soundRange scenario_literal = 0 \<and>
   sint (soundRange scenario_loaded) = 1010 \<and>
   sint (sum_list (map Weight (Sounds scenario_loaded))) = 1010 \<and>
   (\<exists>sound. Random 1500 scenario_loaded = Returns (Some sound) \<and>
      sound \<in> set (Sounds scenario_loaded))"
proof -
  have l: "SoundCollection_Load Map.empty scenario_literal = Returns scenario_loaded"
    and z: "soundRange scenario_literal = 0"
    by (simp_all add: SoundCollection_Load_def scenario_literal_def scenario_loaded_def
        scenario_sounds_def Sound_Load_def createSound_def)
  have r: "sint (soundRange scenario_loaded) = 1010"
    by (simp add: scenario_loaded_def)
  from Random_returns_clip [of scenario_loaded, THEN conjunct2, rule_format, OF conjI [OF l z]]
  have e: "sint (sum_list (map Weight (Sounds scenario_loaded))) = 1010"
    using r by simp
  have h: "0 < sint (soundRange scenario_loaded) \<and>
      sint (soundRange scenario_loaded) \<le> sint (sum_list (map Weight (Sounds scenario_loaded)))"
    using r e by simp
  from Random_returns_clip [of scenario_loaded 1500, THEN conjunct1, rule_format, OF h] l z r e
  show ?thesis by (intro conjI)
qed

theorem Random_nil_counterexample:
  "sint (soundRange wide) = 9223372036854775807 \<and>
   total_weight (Sounds wide) = 18446744073709551612 \<and>
   0 < sint (soundRange wide) \<and> sint (soundRange wide) \<le> total_weight (Sounds wide) \<and>
   randomRange 9223372036854775806 0 (soundRange wide) = Returns 0x7FFFFFFFFFFFFFFE \<and>
   Random 9223372036854775806 wide = Returns None"
  by (simp add: wide_def createSound_def Random_def randomRange_def rand_Intn_def)

end
